theory Spec2Isabelle
  imports Complex_Main "HOL-Library.Char_ord" "HOL-Library.List_Lexorder" "HOL-Library.Sublist"
begin

section \<open>Text primitives of the Python runtime\<close>

text \<open>
  The scripts work on Python \<open>str\<close> values. Text is modelled as \<^typ>\<open>string\<close>; a character
  stands for the code point with the same number, so the model covers code points up to 255.
  The sanitizer, whose whole purpose is to remove code points outside ASCII, is modelled
  further below over lists of code-point numbers instead.

  \<open>uni_isspace\<close> is the set of code points for which \<open>str.isspace\<close> holds; \<open>str.split()\<close>,
  \<open>str.strip()\<close> and the regular-expression class \<open>\s\<close> all use it.
\<close>

definition uni_isspace :: "nat \<Rightarrow> bool" where
  "uni_isspace n =
     ((9 \<le> n \<and> n \<le> 13) \<or> (28 \<le> n \<and> n \<le> 32) \<or> n = 133 \<or> n = 160 \<or> n = 5760 \<or>
      (8192 \<le> n \<and> n \<le> 8202) \<or> n = 8232 \<or> n = 8233 \<or> n = 8239 \<or> n = 8287 \<or> n = 12288)"

definition isspace :: "char \<Rightarrow> bool" where
  "isspace c = uni_isspace (of_char c)"

text \<open>\<open>text.split()\<close>: the maximal runs of non-whitespace characters, in order.\<close>

fun split_from :: "string \<Rightarrow> string \<Rightarrow> string list" where
  "split_from cur [] = (if cur = [] then [] else [cur])"
| "split_from cur (c # cs) =
     (if isspace c then (if cur = [] then split_from [] cs else cur # split_from [] cs)
      else split_from (cur @ [c]) cs)"

definition str_split :: "string \<Rightarrow> string list" where
  "str_split s = split_from [] s"


text \<open>\<open>s.strip()\<close> removes leading and trailing whitespace.\<close>

definition str_strip :: "string \<Rightarrow> string" where
  "str_strip s = rev (dropWhile isspace (rev (dropWhile isspace s)))"

section \<open>Word wrap (\<open>wrap_text\<close> and \<open>draw_wrapped\<close>)\<close>











section \<open>The sanitizer (\<open>sanitize_for_pdf\<close>)\<close>

text \<open>
  \<open>sanitize_for_pdf\<close> of \<open>build_ipl_auction_dataset.py\<close>. Its input is arbitrary Unicode
  text, so here a text is the list of its code points. Two tables of the Unicode database
  that the function consults are parameters: \<open>nfkd\<close> is
  \<open>unicodedata.normalize("NFKD", \<cdot>)\<close>, and \<open>printable_tail\<close> is \<open>str.isprintable\<close> on the
  code points from 128 on. On ASCII \<open>str.isprintable\<close> is fixed: it holds from 32 to 126.
\<close>

type_synonym ustr = "nat list"




text \<open>
  \<open>re.sub(r"\s+", " ", t)\<close> replaces every maximal run of whitespace by one space;
  \<open>.strip()\<close> then removes whitespace at both ends.
\<close>

function sub_ws :: "ustr \<Rightarrow> ustr" where
  "sub_ws [] = []"
| "sub_ws (ch # t) =
     (if uni_isspace ch then 32 # sub_ws (dropWhile uni_isspace t) else ch # sub_ws t)"
  by pat_completeness auto
termination
  by (relation "measure length") (auto simp: length_dropWhile_le le_imp_less_Suc)








section \<open>Age from the birth text (\<open>extract_age_from_born\<close>)\<close>

text \<open>
  \<open>re.search(r"(\d{4})", born_text)\<close> finds the leftmost position at which four digits
  stand in a row; \<open>search_year\<close> returns the captured group. \<open>int_of_digits\<close> is \<open>int(\<cdot>)\<close> on
  a digit string and \<open>str_int\<close> is \<open>str(\<cdot>)\<close> on an integer. The current year,
  \<open>dt.datetime.utcnow().year\<close>, is the parameter \<open>now\<close>.
\<close>

definition isdigit :: "char \<Rightarrow> bool" where
  "isdigit c = (48 \<le> (of_char c :: nat) \<and> (of_char c :: nat) \<le> 57)"

fun search_year :: "string \<Rightarrow> string option" where
  "search_year [] = None"
| "search_year (c # cs) =
     (if 4 \<le> length (c # cs) \<and> list_all isdigit (take 4 (c # cs)) then Some (take 4 (c # cs))
      else search_year cs)"

definition int_of_digits :: "string \<Rightarrow> int" where
  "int_of_digits g = foldl (\<lambda>n c. 10 * n + (int (of_char c) - 48)) 0 g"

definition digit_char :: "nat \<Rightarrow> char" where
  "digit_char d = ''0123456789'' ! d"

fun str_nat :: "nat \<Rightarrow> string" where
  "str_nat n = (if n < 10 then [digit_char n] else str_nat (n div 10) @ [digit_char (n mod 10)])"

definition str_int :: "int \<Rightarrow> string" where
  "str_int i = (if i < 0 then CHR ''-'' # str_nat (nat (- i)) else str_nat (nat i))"

definition extract_age_from_born :: "int \<Rightarrow> string \<Rightarrow> string" where
  "extract_age_from_born now born_text =
     (case search_year born_text of
        None \<Rightarrow> ''''
      | Some g \<Rightarrow>
          (let year = int_of_digits g in
           if year < 1900 \<or> year > now then '''' else str_int (now - year)))"

text \<open>
  Vocabulary of the age properties, stated on positions of the text: four digits stand at
  position \<open>i\<close>; position \<open>i\<close> is the first such position; there is such a position.
\<close>

definition digits4_at :: "string \<Rightarrow> nat \<Rightarrow> bool" where
  "digits4_at s i = (i + 4 \<le> length s \<and> list_all isdigit (take 4 (drop i s)))"

definition first_year_at :: "string \<Rightarrow> nat \<Rightarrow> bool" where
  "first_year_at s i = (digits4_at s i \<and> list_all (\<lambda>k. \<not> digits4_at s k) [0..<i])"

definition has_year :: "string \<Rightarrow> bool" where
  "has_year s = list_ex (digits4_at s) [0..<length s]"

declare str_nat.simps [simp del]

section \<open>Derived scalar fields (\<open>derive_basic_fields\<close>, \<open>find_value\<close>)\<close>

text \<open>
  \<open>s.lower()\<close> on the modelled character range: the letters \<open>A\<close> to \<open>Z\<close> and the capital
  letters of Latin-1 move up by 32. \<open>s.startswith(p)\<close>, and \<open>needle in hay\<close> on strings.
\<close>

definition char_lower :: "char \<Rightarrow> char" where
  "char_lower c =
     (let n = (of_char c :: nat) in
      if (65 \<le> n \<and> n \<le> 90) \<or> (192 \<le> n \<and> n \<le> 222 \<and> n \<noteq> 215) then char_of (n + 32) else c)"

definition str_lower :: "string \<Rightarrow> string" where
  "str_lower s = map char_lower s"

definition startswith :: "string \<Rightarrow> string \<Rightarrow> bool" where
  "startswith s p = (take (length p) s = p)"

fun contains :: "string \<Rightarrow> string \<Rightarrow> bool" where
  "contains needle [] = (needle = [])"
| "contains needle (h # hs) = (startswith (h # hs) needle \<or> contains needle hs)"

text \<open>
  A Python \<open>dict\<close> with string keys is an association list in insertion order, with distinct
  keys. \<open>dict_get d k\<close> is \<open>d.get(k, "")\<close>.
\<close>

type_synonym 'v dict = "(string \<times> 'v) list"

definition dict_get :: "string dict \<Rightarrow> string \<Rightarrow> string" where
  "dict_get d k = (case map_of d k of None \<Rightarrow> '''' | Some v \<Rightarrow> v)"

text \<open>
  \<open>find_value(infobox, keys)\<close>. \<open>find_exact\<close> is its first loop, \<open>for k in keys\<close> with the test
  \<open>k in infobox and infobox[k]\<close>; \<open>find_relaxed\<close> is its second loop, over
  \<open>infobox.items()\<close>, with the test \<open>any(k.lower() in ak for k in keys) and v\<close>.
\<close>

fun find_exact :: "string dict \<Rightarrow> string list \<Rightarrow> string option" where
  "find_exact infobox [] = None"
| "find_exact infobox (k # ks) =
     (case map_of infobox k of
        Some v \<Rightarrow> if v \<noteq> '''' then Some v else find_exact infobox ks
      | None \<Rightarrow> find_exact infobox ks)"

definition relaxed_match :: "string list \<Rightarrow> string \<Rightarrow> bool" where
  "relaxed_match keys actual_key =
     (let ak = str_lower actual_key in list_ex (\<lambda>k. contains (str_lower k) ak) keys)"

fun find_relaxed :: "string dict \<Rightarrow> string list \<Rightarrow> string option" where
  "find_relaxed [] keys = None"
| "find_relaxed ((actual_key, v) # items) keys =
     (if relaxed_match keys actual_key \<and> v \<noteq> '''' then Some v else find_relaxed items keys)"

definition find_value :: "string dict \<Rightarrow> string list \<Rightarrow> string" where
  "find_value infobox keys =
     (case find_exact infobox keys of
        Some v \<Rightarrow> v
      | None \<Rightarrow> (case find_relaxed infobox keys of Some v \<Rightarrow> v | None \<Rightarrow> ''''))"

text \<open>
  \<open>derive_basic_fields(infobox, ipl_team)\<close>; the result is the dictionary literal of the
  source. \<open>ipl_team or find_value(\<dots>)\<close> takes the hint unless it is empty.
\<close>

definition derive_basic_fields :: "int \<Rightarrow> string dict \<Rightarrow> string \<Rightarrow> string dict" where
  "derive_basic_fields now infobox ipl_team =
     (let born = dict_get infobox ''Born'';
          age = extract_age_from_born now born;
          runs = find_value infobox [''Runs'', ''Runs scored'', ''IPL runs''];
          wickets = find_value infobox [''Wickets'', ''IPL wickets''];
          matches = find_value infobox [''Matches'', ''No. of IPL matches'', ''IPL matches''];
          role = dict_get infobox ''Role'';
          country = dict_get infobox ''National side'';
          country = (if country = '''' then find_value infobox [''Country''] else country);
          current_team =
            (if ipl_team \<noteq> '''' then ipl_team else find_value infobox [''Current team'', ''Team''])
      in [(''age'', age), (''runs'', runs), (''wickets'', wickets), (''matches'', matches),
          (''role'', role), (''country'', country), (''ipl_team'', current_team)])"

section \<open>Metadata upsert (the end of \<open>main\<close>)\<close>












section \<open>The HTTP clients (\<open>get\<close> and \<open>get_json\<close>)\<close>

text \<open>
  The remote side is a function from the number of the request (counted from 0) to the time
  the request takes and its outcome: a response with status code and body, or a failure of
  the transport (\<open>session.get\<close> raises). The client state holds the monotonic clock, the
  global \<open>_LAST_REQUEST_TS\<close>, the number of requests sent, and the log of what the client
  did: a sleep of the rate limiter, a request, a backoff sleep. \<open>time.sleep(d)\<close> advances
  the clock by \<open>d\<close>.
\<close>

datatype reply = Response nat string | TransportFailure

type_synonym server = "nat \<Rightarrow> real \<times> reply"

datatype event = Throttle real | Request | Backoff real

record net =
  clock :: real
  last_request_ts :: real
  sent :: nat
  log :: "event list"

datatype cause = HTTPError nat | TransportError | DecodeError

datatype error = Raised cause | RuntimeError "cause option"

definition backoff_sleep :: "real \<Rightarrow> net \<Rightarrow> net" where
  "backoff_sleep d st = st\<lparr>clock := clock st + d, log := log st @ [Backoff d]\<rparr>"

text \<open>\<open>r.raise_for_status()\<close> raises \<open>HTTPError\<close> for the statuses from 400 to 599.\<close>

definition raises_for_status :: "nat \<Rightarrow> bool" where
  "raises_for_status status = (400 \<le> status \<and> status < 600)"

text \<open>
  \<open>get(url, params, timeout)\<close> of \<open>build_ipl_auction_dataset.py\<close>, with
  \<open>REQUEST_INTERVAL_SECONDS\<close> as the parameter \<open>interval\<close> (1.2 at import, at least 0.2 once
  \<open>main\<close> has run). \<open>throttle\<close> is the wait before a request, \<open>get_loop\<close> the loop
  \<open>for attempt in range(retries)\<close>; the \<open>raise RuntimeError\<close> after the loop is its
  empty-list case.
\<close>

definition throttle :: "real \<Rightarrow> net \<Rightarrow> net" where
  "throttle interval st =
     (let now = clock st; wait = interval - (now - last_request_ts st) in
      if wait > 0 then st\<lparr>clock := clock st + wait, log := log st @ [Throttle wait]\<rparr> else st)"

fun get_loop :: "real \<Rightarrow> server \<Rightarrow> nat \<Rightarrow> nat list \<Rightarrow> net \<Rightarrow> (error + nat \<times> string) \<times> net" where
  "get_loop interval srv retries [] st = (Inl (RuntimeError None), st)"
| "get_loop interval srv retries (attempt # rest) st =
     (let st1 = throttle interval st;
          (dur, r) = srv (sent st1);
          st2 = st1\<lparr>clock := clock st1 + dur, sent := sent st1 + 1, log := log st1 @ [Request]\<rparr>
      in case r of
           TransportFailure \<Rightarrow> (Inl (Raised TransportError), st2)
         | Response status_code body \<Rightarrow>
             (let st3 = st2\<lparr>last_request_ts := clock st2\<rparr> in
              if status_code \<in> {403, 429, 500, 502, 503, 504} \<and> attempt < retries - 1
              then get_loop interval srv retries rest
                     (backoff_sleep (real (attempt + 1) * interval) st3)
              else if raises_for_status status_code then (Inl (Raised (HTTPError status_code)), st3)
              else (Inr (status_code, body), st3)))"

definition get :: "real \<Rightarrow> server \<Rightarrow> net \<Rightarrow> (error + nat \<times> string) \<times> net" where
  "get interval srv st = (let retries = 4 in get_loop interval srv retries [0..<retries] st)"

text \<open>
  \<open>get_json(url, params, timeout)\<close> of \<open>build_free_source_pdfs.py\<close>. The whole attempt is
  inside \<open>try\<close>, and \<open>except Exception\<close> records the exception, sleeps and goes on with
  the next attempt: this holds for a transport failure, for the \<open>HTTPError\<close> of
  \<open>raise_for_status\<close> and for a body that \<open>r.json()\<close> cannot decode (\<open>json\<close> is the
  decoder). This client has no rate limiter.
\<close>

fun get_json_loop ::
  "server \<Rightarrow> (string \<Rightarrow> 'j option) \<Rightarrow> nat list \<Rightarrow> cause option \<Rightarrow> net \<Rightarrow> (error + 'j) \<times> net" where
  "get_json_loop srv json [] last_exc st = (Inl (RuntimeError last_exc), st)"
| "get_json_loop srv json (attempt # rest) last_exc st =
     (let (dur, r) = srv (sent st);
          st1 = st\<lparr>clock := clock st + dur, sent := sent st + 1, log := log st @ [Request]\<rparr>;
          pause = backoff_sleep (1.5 * real (attempt + 1))
      in case r of
           TransportFailure \<Rightarrow> get_json_loop srv json rest (Some TransportError) (pause st1)
         | Response status_code body \<Rightarrow>
             if status_code \<in> {429, 500, 502, 503, 504}
             then get_json_loop srv json rest last_exc (pause st1)
             else if raises_for_status status_code
             then get_json_loop srv json rest (Some (HTTPError status_code)) (pause st1)
             else (case json body of
                     None \<Rightarrow> get_json_loop srv json rest (Some DecodeError) (pause st1)
                   | Some j \<Rightarrow> (Inr j, st1)))"

definition get_json :: "server \<Rightarrow> (string \<Rightarrow> 'j option) \<Rightarrow> net \<Rightarrow> (error + 'j) \<times> net" where
  "get_json srv json st = get_json_loop srv json [0..<3] None st"

text \<open>The backoff sleeps of a log, in order, and the number of its requests.\<close>

fun backoffs :: "event list \<Rightarrow> real list" where
  "backoffs [] = []"
| "backoffs (Backoff d # es) = d # backoffs es"
| "backoffs (e # es) = backoffs es"

text \<open>
  The state after an attempt of \<open>get\<close> that ends in a backoff sleep, and after an attempt
  that ends the call.
\<close>

definition retried :: "real \<Rightarrow> real \<Rightarrow> nat \<Rightarrow> net \<Rightarrow> net" where
  "retried interval dur attempt st =
     (let st1 = throttle interval st in
      st1\<lparr>clock := clock st1 + dur + real (attempt + 1) * interval,
          last_request_ts := clock st1 + dur,
          sent := sent st1 + 1,
          log := log st1 @ [Request, Backoff (real (attempt + 1) * interval)]\<rparr>)"

definition answered :: "real \<Rightarrow> real \<Rightarrow> net \<Rightarrow> net" where
  "answered interval dur st =
     (let st1 = throttle interval st in
      st1\<lparr>clock := clock st1 + dur,
          last_request_ts := clock st1 + dur,
          sent := sent st1 + 1,
          log := log st1 @ [Request]\<rparr>)"

definition idle :: net where
  "idle = \<lparr>clock = 0, last_request_ts = 0, sent = 0, log = []\<rparr>"

section \<open>The auction listing (\<open>extract_players_from_espn_html\<close>)\<close>

text \<open>
  \<open>re.findall\<close> with a pattern of the shape \<open>"KEY"\s*:\s*"([^"]+)"\<close>. \<open>match_field key s\<close>
  matches the pattern at the start of \<open>s\<close>, where \<open>key\<close> is the quoted key; it returns the
  captured group and the length of the match. Every part of the pattern is deterministic:
  \<open>\s*\<close> is followed by a character that is not whitespace, and \<open>[^"]+\<close> by the quote it
  excludes. \<open>findall_from\<close> scans from left to right and continues behind each match.
\<close>

definition quoted :: "string \<Rightarrow> string" where
  "quoted s = CHR 0x22 # s @ [CHR 0x22]"

definition match_field :: "string \<Rightarrow> string \<Rightarrow> (string \<times> nat) option" where
  "match_field key s =
     (if startswith s key then
        (case dropWhile isspace (drop (length key) s) of
           c1 # s2 \<Rightarrow>
             if c1 = CHR '':'' then
               (case dropWhile isspace s2 of
                  c2 # s4 \<Rightarrow>
                    if c2 = CHR 0x22 then
                      (let g = takeWhile (\<lambda>c. c \<noteq> CHR 0x22) s4;
                           s5 = dropWhile (\<lambda>c. c \<noteq> CHR 0x22) s4
                       in if g \<noteq> [] \<and> s5 \<noteq> [] then Some (g, length s - length s5 + 1) else None)
                    else None
                | [] \<Rightarrow> None)
             else None
         | [] \<Rightarrow> None)
      else None)"

fun match_keys :: "string list \<Rightarrow> string \<Rightarrow> (string \<times> nat) option" where
  "match_keys [] s = None"
| "match_keys (key # keys) s =
     (case match_field key s of Some m \<Rightarrow> Some m | None \<Rightarrow> match_keys keys s)"

fun findall_from :: "string list \<Rightarrow> nat \<Rightarrow> string \<Rightarrow> string list" where
  "findall_from keys skip [] = []"
| "findall_from keys skip (c # cs) =
     (if skip > 0 then findall_from keys (skip - 1) cs
      else case match_keys keys (c # cs) of
             Some (g, n) \<Rightarrow> g # findall_from keys (n - 1) cs
           | None \<Rightarrow> findall_from keys 0 cs)"

text \<open>
  The two scans of the source: \<open>"name"\s*:\s*"([^"]+)"\<close> and
  \<open>"team(?:Name)?"\s*:\s*"([^"]+)"\<close>.
\<close>

definition findall_names :: "string \<Rightarrow> string list" where
  "findall_names html = findall_from [quoted ''name''] 0 html"

definition findall_teams :: "string \<Rightarrow> string list" where
  "findall_teams html = findall_from [quoted ''teamName'', quoted ''team''] 0 html"

text \<open>An entry of the result, the dictionary \<open>{"name": \<dots>, "ipl_team": \<dots>}\<close>.\<close>

record player =
  name :: string
  ipl_team :: string

text \<open>
  The loop \<open>for n in sorted(name_candidates)\<close> with its noise filter, on the sorted list of
  the distinct matches.
\<close>

fun script_players :: "string list \<Rightarrow> player list" where
  "script_players [] = []"
| "script_players (n # ns) =
     (if length (str_split n) \<ge> 2 \<and>
         \<not> (startswith (str_lower n) ''ipl'' \<or> startswith (str_lower n) ''auction'')
      then \<lparr>name = str_strip n, ipl_team = ''''\<rparr> # script_players ns
      else script_players ns)"

text \<open>
  The table fallback. The HTML parser is outside the source: \<open>soup_rows html\<close> stands for
  the rows \<open>soup.select("tr")\<close>, each given by the texts of its \<open>td\<close> cells.
  \<open>name_shaped\<close> is \<open>re.match(r"^[A-Z][A-Za-z.' -]{2,}$", cell)\<close>, where \<open>$\<close> also matches
  before a final newline.
\<close>

definition name_char :: "char \<Rightarrow> bool" where
  "name_char c =
     (let n = (of_char c :: nat) in
      (65 \<le> n \<and> n \<le> 90) \<or> (97 \<le> n \<and> n \<le> 122) \<or> c = CHR ''.'' \<or> c = CHR 0x27 \<or>
      c = CHR '' '' \<or> c = CHR ''-'')"

definition name_shaped :: "string \<Rightarrow> bool" where
  "name_shaped cell =
     (case cell of
        [] \<Rightarrow> False
      | c # rest \<Rightarrow>
          65 \<le> (of_char c :: nat) \<and> (of_char c :: nat) \<le> 90 \<and>
          length (takeWhile name_char rest) \<ge> 2 \<and>
          (dropWhile name_char rest = [] \<or> dropWhile name_char rest = [CHR 0x0A]))"

fun first_name_cell :: "string list \<Rightarrow> string" where
  "first_name_cell [] = ''''"
| "first_name_cell (cell # cells) =
     (if name_shaped cell \<and> length (str_split cell) \<le> 4 then cell else first_name_cell cells)"

fun table_players :: "string list list \<Rightarrow> player list" where
  "table_players [] = []"
| "table_players (tds # rows) =
     (if tds = [] then table_players rows
      else let maybe_name = first_name_cell tds in
           if maybe_name \<noteq> '''' then \<lparr>name = maybe_name, ipl_team = ''''\<rparr> # table_players rows
           else table_players rows)"

text \<open>The deduplication loop with its variables \<open>seen\<close> and \<open>out\<close>.\<close>

definition dedup_key :: "player \<Rightarrow> string" where
  "dedup_key p = str_lower (str_strip (name p))"

fun dedup_loop :: "string set \<Rightarrow> player list \<Rightarrow> player list \<Rightarrow> player list" where
  "dedup_loop seen out [] = out"
| "dedup_loop seen out (p # ps) =
     (let k = dedup_key p in
      if k \<noteq> '''' \<and> k \<notin> seen then dedup_loop (insert k seen) (out @ [p]) ps
      else dedup_loop seen out ps)"

text \<open>
  \<open>candidates\<close> is the list \<open>players\<close> before the deduplication. The team fragments are
  collected and never read.
\<close>

definition candidates :: "(string \<Rightarrow> string list list) \<Rightarrow> string \<Rightarrow> player list" where
  "candidates soup_rows html =
     (let name_candidates = remdups (findall_names html);
          team_candidates = findall_teams html;
          players = (if name_candidates \<noteq> [] then script_players (sort name_candidates) else [])
      in if players = [] then table_players (soup_rows html) else players)"

definition extract_players_from_espn_html :: "(string \<Rightarrow> string list list) \<Rightarrow> string \<Rightarrow> player list" where
  "extract_players_from_espn_html soup_rows html = dedup_loop {} [] (candidates soup_rows html)"

section \<open>The statistics table (\<open>fetch_espn_statsguru_summary\<close>)\<close>

text \<open>
  The page is fetched and parsed outside the source; the model starts from the parse:
  the list \<open>soup.select("table.engineTable")\<close>, each table being the list of its rows
  \<open>table.select("tr")\<close>, and each row being given by the texts of its \<open>th\<close> cells and of
  its \<open>td\<close> cells, both after \<open>clean\<close>. \<open>dict_set d k v\<close> is the assignment \<open>d[k] = v\<close>.
  An index past the end of a list raises \<open>IndexError\<close>.
\<close>

record row =
  ths :: "string list"
  tds :: "string list"

datatype py_error = IndexError

fun dict_set :: "'v dict \<Rightarrow> string \<Rightarrow> 'v \<Rightarrow> 'v dict" where
  "dict_set [] k v = [(k, v)]"
| "dict_set ((k', v') # d) k v = (if k' = k then (k, v) # d else (k', v') # dict_set d k v)"

text \<open>\<open>{headers[i]: tds[i] for i in range(1, len(headers))}\<close>, used where both lists have
  the same length.\<close>

definition row_dict :: "string list \<Rightarrow> string list \<Rightarrow> string dict" where
  "row_dict headers cells =
     fold (\<lambda>i d. dict_set d (headers ! i) (cells ! i)) [1..<length headers] []"

text \<open>The loop \<open>for row in rows[1:]\<close> with its variable \<open>out\<close>.\<close>

fun scan_rows ::
  "string list \<Rightarrow> row list \<Rightarrow> (string dict) dict \<Rightarrow> py_error + (string dict) dict" where
  "scan_rows headers [] out = Inr out"
| "scan_rows headers (r # rows) out =
     (if length (tds r) \<noteq> length headers then scan_rows headers rows out
      else case tds r of
             [] \<Rightarrow> Inl IndexError
           | fmt # cells \<Rightarrow>
               if fmt = '''' \<or> str_lower fmt \<in> {''span'', ''overall''}
               then scan_rows headers rows out
               else scan_rows headers rows (dict_set out fmt (row_dict headers (tds r))))"

text \<open>The loop \<open>for table in tables\<close> and the final \<open>return {}\<close>.\<close>

fun scan_tables :: "row list list \<Rightarrow> py_error + (string dict) dict" where
  "scan_tables [] = Inr []"
| "scan_tables (rows # tables) =
     (if length rows < 2 then scan_tables tables
      else case rows of
             [] \<Rightarrow> Inl IndexError
           | r0 # data \<Rightarrow>
               (let headers = ths r0 in
                if ''Mat'' \<notin> set headers then scan_tables tables
                else case scan_rows headers data [] of
                       Inl e \<Rightarrow> Inl e
                     | Inr out \<Rightarrow> if out \<noteq> [] then Inr out else scan_tables tables))"

definition fetch_espn_statsguru_summary :: "row list list \<Rightarrow> py_error + (string dict) dict" where
  "fetch_espn_statsguru_summary tables = scan_tables tables"

text \<open>
  Vocabulary of the table properties: a data row is usable under the headers when it has as
  many cells as there are headers and its first cell is neither empty nor \<open>span\<close> or
  \<open>overall\<close> in any letter case; a table qualifies when it has at least two rows, a header
  \<open>Mat\<close> and a usable data row.
\<close>

definition usable :: "string list \<Rightarrow> row \<Rightarrow> bool" where
  "usable headers r =
     (length (tds r) = length headers \<and>
      (case tds r of [] \<Rightarrow> False
       | fmt # cells \<Rightarrow> fmt \<noteq> '''' \<and> str_lower fmt \<noteq> ''span'' \<and> str_lower fmt \<noteq> ''overall''))"

definition qualifies :: "row list \<Rightarrow> bool" where
  "qualifies rows =
     (case rows of
        [] \<Rightarrow> False
      | r0 # data \<Rightarrow> data \<noteq> [] \<and> ''Mat'' \<in> set (ths r0) \<and> list_ex (usable (ths r0)) data)"

section \<open>Properties of the text primitives\<close>










section \<open>Word wrap is lossless and greedy\<close>



















section \<open>The sanitizer yields printable ASCII\<close>




lemma sub_ws_head: "t \<noteq> [] \<Longrightarrow> \<not> uni_isspace (hd t) \<Longrightarrow> sub_ws t \<noteq> [] \<and> hd (sub_ws t) = hd t"
  by (cases t) simp_all


























section \<open>Age derivation: first year token, range check, difference\<close>

lemma digits4_at_Cons: "digits4_at (c # cs) (Suc i) = digits4_at cs i"
  by (simp add: digits4_at_def add.commute)

lemma first_year_at_iff: "first_year_at s i \<longleftrightarrow> digits4_at s i \<and> (\<forall>k<i. \<not> digits4_at s k)"
  by (auto simp: first_year_at_def list_all_iff)

lemma has_year_iff: "has_year s \<longleftrightarrow> (\<exists>i. digits4_at s i)"
  by (auto simp: has_year_def list_ex_iff digits4_at_def)

lemma search_year_first: "first_year_at s i \<Longrightarrow> search_year s = Some (take 4 (drop i s))"
proof (induction s arbitrary: i)
  case Nil
  then show ?case by (simp add: first_year_at_iff digits4_at_def)
next
  case (Cons c cs)
  show ?case
  proof (cases i)
    case 0
    with Cons.prems show ?thesis by (simp add: first_year_at_iff digits4_at_def)
  next
    case (Suc j)
    from Cons.prems Suc have d: "digits4_at cs j"
      by (simp add: first_year_at_iff digits4_at_Cons)
    from Cons.prems Suc have "\<forall>k<Suc j. \<not> digits4_at (c # cs) k"
      by (simp add: first_year_at_iff)
    then have n0: "\<not> digits4_at (c # cs) 0" and nk: "\<forall>k<j. \<not> digits4_at (c # cs) (Suc k)"
      by auto
    from nk have "\<forall>k<j. \<not> digits4_at cs k" by (simp add: digits4_at_Cons)
    with d have "first_year_at cs j" by (simp add: first_year_at_iff)
    then have ih: "search_year cs = Some (take 4 (drop j cs))" by (rule Cons.IH)
    from n0 have "\<not> (4 \<le> length (c # cs) \<and> list_all isdigit (take 4 (c # cs)))"
      by (simp add: digits4_at_def)
    then have "search_year (c # cs) = search_year cs"
      by (simp only: search_year.simps if_False)
    then show ?thesis using ih Suc by simp
  qed
qed

lemma search_year_none: "\<not> has_year s \<Longrightarrow> search_year s = None"
proof (induction s)
  case Nil
  show ?case by simp
next
  case (Cons c cs)
  then have all: "\<forall>i. \<not> digits4_at (c # cs) i" by (simp add: has_year_iff)
  then have "\<forall>i. \<not> digits4_at (c # cs) (Suc i)" by blast
  then have "\<not> has_year cs" by (simp add: has_year_iff digits4_at_Cons)
  then have ih: "search_year cs = None" by (rule Cons.IH)
  from all have "\<not> digits4_at (c # cs) 0" by blast
  then have "\<not> (4 \<le> length (c # cs) \<and> list_all isdigit (take 4 (c # cs)))"
    by (simp add: digits4_at_def)
  then have "search_year (c # cs) = search_year cs"
    by (simp only: search_year.simps if_False)
  then show ?case using ih by simp
qed

lemma digit_char_code: "d < 10 \<Longrightarrow> of_char (digit_char d) = 48 + d"
proof -
  have "list_all (\<lambda>d. of_char (digit_char d) = 48 + d) [0..<10]"
    by (simp add: digit_char_def upt_rec)
  then show "d < 10 \<Longrightarrow> of_char (digit_char d) = 48 + d" by (simp add: list_all_iff)
qed

lemma int_of_digits_snoc: "int_of_digits (g @ [c]) = 10 * int_of_digits g + (int (of_char c) - 48)"
  by (simp add: int_of_digits_def)

lemma int_of_digits_str_nat: "int_of_digits (str_nat n) = int n"
proof (induction n rule: str_nat.induct)
  case (1 n)
  show ?case
  proof (cases "n < 10")
    case True
    then have "str_nat n = [digit_char n]" by (simp add: str_nat.simps)
    then show ?thesis using True by (simp add: int_of_digits_def digit_char_code)
  next
    case False
    then have "str_nat n = str_nat (n div 10) @ [digit_char (n mod 10)]"
      by (subst str_nat.simps) simp
    moreover have "int_of_digits (str_nat (n div 10)) = int (n div 10)" using False by (rule "1.IH")
    moreover have "of_char (digit_char (n mod 10)) = 48 + n mod 10" by (simp add: digit_char_code)
    moreover have "10 * int (n div 10) + int (n mod 10) = int n" by presburger
    ultimately show ?thesis by (simp add: int_of_digits_snoc)
  qed
qed

lemma int_of_digits_str_int: "0 \<le> i \<Longrightarrow> int_of_digits (str_int i) = i"
  by (simp add: str_int_def int_of_digits_str_nat)

lemma str_int_25: "str_int 25 = ''25''"
  by (simp add: str_int_def str_nat.simps digit_char_def)

text \<open>
  Claim C4. \<open>extract_age_from_born\<close> returns the empty string when the birth text has no
  four consecutive digits; otherwise it reads the leftmost four consecutive digits as the
  year and returns the empty string when the year is below 1900 or above the current year,
  and the decimal string of current year minus year otherwise. In particular a first year
  token \<open>1850\<close> gives the empty string, and a first year token that spells the current year
  minus 25 gives \<open>25\<close> (for a current year from 1925 on, so that the birth year is not
  below 1900).
\<close>

theorem extract_age_from_born_spec:
  "(\<not> has_year born \<longrightarrow> extract_age_from_born now born = '''') \<and>
   (first_year_at born i \<longrightarrow>
      extract_age_from_born now born =
        (let year = int_of_digits (take 4 (drop i born)) in
         if year < 1900 \<or> now < year then '''' else str_int (now - year))) \<and>
   (first_year_at born i \<and> take 4 (drop i born) = ''1850'' \<longrightarrow>
      extract_age_from_born now born = '''') \<and>
   (first_year_at born i \<and> take 4 (drop i born) = str_int (now - 25) \<and> 1925 \<le> now \<longrightarrow>
      extract_age_from_born now born = ''25'')"
proof (intro conjI impI)
  assume "\<not> has_year born"
  then show "extract_age_from_born now born = ''''"
    by (simp add: extract_age_from_born_def search_year_none)
next
  assume "first_year_at born i"
  then show "extract_age_from_born now born =
        (let year = int_of_digits (take 4 (drop i born)) in
         if year < 1900 \<or> now < year then '''' else str_int (now - year))"
    by (simp add: extract_age_from_born_def search_year_first)
next
  assume "first_year_at born i \<and> take 4 (drop i born) = ''1850''"
  then have "search_year born = Some ''1850''" using search_year_first[of born i] by simp
  then show "extract_age_from_born now born = ''''"
    by (simp add: extract_age_from_born_def int_of_digits_def)
next
  assume a: "first_year_at born i \<and> take 4 (drop i born) = str_int (now - 25) \<and> 1925 \<le> now"
  then have "search_year born = Some (str_int (now - 25))"
    using search_year_first[of born i] by simp
  moreover have "int_of_digits (str_int (now - 25)) = now - 25"
    using a by (intro int_of_digits_str_int) simp
  ultimately show "extract_age_from_born now born = ''25''"
    using a by (simp add: extract_age_from_born_def str_int_25)
qed

theorem extract_age_from_born_spec_witness:
  "first_year_at ''(born 5 November 1988)'' 17 \<and>
   take 4 (drop 17 ''(born 5 November 1988)'') = str_int (2013 - 25) \<and>
   extract_age_from_born 2013 ''(born 5 November 1988)'' = ''25'' \<and>
   first_year_at ''b. 18501'' 3 \<and> take 4 (drop 3 ''b. 18501'') = ''1850'' \<and>
   extract_age_from_born 2026 ''b. 18501'' = '''' \<and>
   \<not> has_year ''12 May'' \<and> extract_age_from_born 2026 ''12 May'' = ''''"
proof -
  have a: "first_year_at ''(born 5 November 1988)'' 17"
    by (simp add: first_year_at_def digits4_at_def isdigit_def upt_rec)
  have b: "take 4 (drop 17 ''(born 5 November 1988)'') = str_int (2013 - 25)"
    by (simp add: str_int_def str_nat.simps digit_char_def)
  have c: "first_year_at ''b. 18501'' 3"
    by (simp add: first_year_at_def digits4_at_def isdigit_def upt_rec)
  have d: "take 4 (drop 3 ''b. 18501'') = ''1850''" by simp
  have e: "\<not> has_year ''12 May''"
    by (simp add: has_year_def digits4_at_def isdigit_def upt_rec)
  show ?thesis
    using a b c d e
      extract_age_from_born_spec[of "''(born 5 November 1988)''" 2013 17]
      extract_age_from_born_spec[of "''b. 18501''" 2026 3]
      extract_age_from_born_spec[of "''12 May''" 2026 0]
    by (simp add: int_of_digits_def str_int_def str_nat.simps digit_char_def)
qed

section \<open>Field precedence\<close>

lemmas text_eval =
  isspace_def uni_isspace_def str_lower_def char_lower_def char_of_def bit_Suc_0_iff
  startswith_def

lemma contains_iff: "contains needle hay \<longleftrightarrow> (\<exists>p s. hay = p @ needle @ s)"
proof (induction hay)
  case Nil
  show ?case by auto
next
  case (Cons h hs)
  have "startswith (h # hs) needle \<longleftrightarrow> (\<exists>s. h # hs = needle @ s)"
    unfolding startswith_def by (metis append_eq_conv_conj append_take_drop_id)
  moreover have "(\<exists>p s. h # hs = p @ needle @ s) \<longleftrightarrow>
      (\<exists>s. h # hs = needle @ s) \<or> (\<exists>p s. hs = p @ needle @ s)"
  proof
    assume "\<exists>p s. h # hs = p @ needle @ s"
    then obtain p s where ps: "h # hs = p @ needle @ s" by blast
    show "(\<exists>s. h # hs = needle @ s) \<or> (\<exists>p s. hs = p @ needle @ s)"
    proof (cases p)
      case Nil
      with ps show ?thesis by auto
    next
      case (Cons a p')
      with ps have "hs = p' @ needle @ s" by simp
      then show ?thesis by blast
    qed
  next
    assume "(\<exists>s. h # hs = needle @ s) \<or> (\<exists>p s. hs = p @ needle @ s)"
    then show "\<exists>p s. h # hs = p @ needle @ s"
    proof
      assume "\<exists>s. h # hs = needle @ s"
      then obtain s where "h # hs = [] @ needle @ s" by auto
      then show ?thesis by blast
    next
      assume "\<exists>p s. hs = p @ needle @ s"
      then obtain p s where "h # hs = (h # p) @ needle @ s" by auto
      then show ?thesis by blast
    qed
  qed
  ultimately show ?case using Cons.IH by simp
qed

lemma contains_refl: "contains s s"
  using contains_iff[of s s] by (metis append_Nil append_Nil2)

lemma find_exact_skip:
  "\<forall>k \<in> set ks. dict_get infobox k = '''' \<Longrightarrow> find_exact infobox (ks @ rest) = find_exact infobox rest"
  by (induction ks) (auto simp: dict_get_def split: option.splits)

lemma find_exact_hit:
  assumes "\<forall>k' \<in> set ks1. dict_get infobox k' = ''''" "dict_get infobox k = v" "v \<noteq> ''''"
  shows "find_exact infobox (ks1 @ k # ks2) = Some v"
proof -
  have "find_exact infobox (k # ks2) = Some v"
    using assms(2,3) by (auto simp: dict_get_def split: option.splits)
  then show ?thesis using find_exact_skip[OF assms(1)] by simp
qed

lemma find_exact_none:
  "\<forall>k \<in> set keys. dict_get infobox k = '''' \<Longrightarrow> find_exact infobox keys = None"
  using find_exact_skip[of keys infobox "[]"] by simp

lemma find_relaxed_skip:
  "\<forall>(ak, v) \<in> set items1. v = '''' \<or> \<not> relaxed_match keys ak \<Longrightarrow>
   find_relaxed (items1 @ rest) keys = find_relaxed rest keys"
  by (induction items1) auto

lemma find_relaxed_none:
  "\<forall>(ak, v) \<in> set items. v = '''' \<or> \<not> relaxed_match keys ak \<Longrightarrow> find_relaxed items keys = None"
  using find_relaxed_skip[of items keys "[]"] by simp

lemma exact_is_relaxed:
  assumes "k \<in> set keys" "dict_get infobox k \<noteq> ''''"
  shows "\<exists>(ak, v) \<in> set infobox. v \<noteq> '''' \<and> relaxed_match keys ak"
proof -
  from assms(2) obtain v where v: "map_of infobox k = Some v" "v \<noteq> ''''"
    by (auto simp: dict_get_def split: option.splits)
  then have "(k, v) \<in> set infobox" by (simp add: map_of_SomeD)
  moreover have "relaxed_match keys k"
    using assms(1) contains_refl by (auto simp: relaxed_match_def list_ex_iff)
  ultimately show ?thesis using v(2) by blast
qed

lemma find_value_nothing:
  assumes "\<forall>(ak, v) \<in> set infobox. v = '''' \<or> \<not> relaxed_match keys ak"
  shows "find_value infobox keys = ''''"
proof -
  have "\<forall>k \<in> set keys. dict_get infobox k = ''''"
    using exact_is_relaxed[of _ keys infobox] assms by blast
  then show ?thesis using assms by (simp add: find_value_def find_exact_none find_relaxed_none)
qed

lemma team_field:
  "dict_get (derive_basic_fields now infobox hint) ''ipl_team'' =
     (if hint \<noteq> '''' then hint else find_value infobox [''Current team'', ''Team''])"
  by (simp add: derive_basic_fields_def dict_get_def Let_def)

lemma team_and_find_value:
  "(hint \<noteq> '''' \<longrightarrow> dict_get (derive_basic_fields now infobox hint) ''ipl_team'' = hint) \<and>
   (dict_get (derive_basic_fields now infobox '''') ''ipl_team'' =
      find_value infobox [''Current team'', ''Team'']) \<and>
   (dict_get infobox ''Current team'' = v \<and> v \<noteq> '''' \<longrightarrow>
      dict_get (derive_basic_fields now infobox '''') ''ipl_team'' = v) \<and>
   ((\<forall>(ak, v') \<in> set infobox. v' = '''' \<or> \<not> relaxed_match [''Current team'', ''Team''] ak) \<longrightarrow>
      dict_get (derive_basic_fields now infobox '''') ''ipl_team'' = '''') \<and>
   ((\<forall>k' \<in> set ks1. dict_get infobox k' = '''') \<and> dict_get infobox k = v \<and> v \<noteq> '''' \<longrightarrow>
      find_value infobox (ks1 @ k # ks2) = v) \<and>
   ((\<forall>k \<in> set keys. dict_get infobox k = '''') \<and> infobox = items1 @ (ak, v) # items2 \<and>
    (\<forall>(ak', v') \<in> set items1. v' = '''' \<or> \<not> relaxed_match keys ak') \<and>
    relaxed_match keys ak \<and> v \<noteq> '''' \<longrightarrow>
      find_value infobox keys = v) \<and>
   ((\<forall>(ak, v') \<in> set infobox. v' = '''' \<or> \<not> relaxed_match keys ak) \<longrightarrow>
      find_value infobox keys = '''')"
proof (intro conjI impI)
  show "dict_get (derive_basic_fields now infobox '''') ''ipl_team'' =
      find_value infobox [''Current team'', ''Team'']"
    by (simp add: team_field)
next
  assume "hint \<noteq> ''''"
  then show "dict_get (derive_basic_fields now infobox hint) ''ipl_team'' = hint"
    by (simp add: team_field)
next
  assume a: "dict_get infobox ''Current team'' = v \<and> v \<noteq> ''''"
  have "find_exact infobox ([] @ ''Current team'' # [''Team'']) = Some v"
    using a by (intro find_exact_hit) simp_all
  then show "dict_get (derive_basic_fields now infobox '''') ''ipl_team'' = v"
    by (simp add: team_field find_value_def)
next
  assume "\<forall>(ak, v') \<in> set infobox. v' = '''' \<or> \<not> relaxed_match [''Current team'', ''Team''] ak"
  then show "dict_get (derive_basic_fields now infobox '''') ''ipl_team'' = ''''"
    by (simp only: team_field find_value_nothing) simp
next
  assume "(\<forall>k' \<in> set ks1. dict_get infobox k' = '''') \<and> dict_get infobox k = v \<and> v \<noteq> ''''"
  then have "find_exact infobox (ks1 @ k # ks2) = Some v" by (intro find_exact_hit) simp_all
  then show "find_value infobox (ks1 @ k # ks2) = v" by (simp add: find_value_def)
next
  assume a: "(\<forall>k \<in> set keys. dict_get infobox k = '''') \<and> infobox = items1 @ (ak, v) # items2 \<and>
    (\<forall>(ak', v') \<in> set items1. v' = '''' \<or> \<not> relaxed_match keys ak') \<and>
    relaxed_match keys ak \<and> v \<noteq> ''''"
  then have "\<forall>k \<in> set keys. dict_get infobox k = []" by blast
  then have "find_exact infobox keys = None" by (rule find_exact_none)
  moreover from a have "\<forall>(ak', v') \<in> set items1. v' = [] \<or> \<not> relaxed_match keys ak'" by blast
  then have "find_relaxed (items1 @ (ak, v) # items2) keys = find_relaxed ((ak, v) # items2) keys"
    by (rule find_relaxed_skip)
  moreover from a have "infobox = items1 @ (ak, v) # items2" "relaxed_match keys ak" "v \<noteq> []"
    by blast+
  ultimately show "find_value infobox keys = v" by (simp add: find_value_def)
next
  assume "\<forall>(ak, v') \<in> set infobox. v' = '''' \<or> \<not> relaxed_match keys ak"
  then show "find_value infobox keys = ''''" by (rule find_value_nothing)
qed

lemma derived_fields:
  "dict_get (derive_basic_fields now infobox hint) ''runs'' =
     find_value infobox [''Runs'', ''Runs scored'', ''IPL runs'']"
  "dict_get (derive_basic_fields now infobox hint) ''wickets'' =
     find_value infobox [''Wickets'', ''IPL wickets'']"
  "dict_get (derive_basic_fields now infobox hint) ''matches'' =
     find_value infobox [''Matches'', ''No. of IPL matches'', ''IPL matches'']"
  "dict_get (derive_basic_fields now infobox hint) ''role'' = dict_get infobox ''Role''"
  "dict_get (derive_basic_fields now infobox hint) ''country'' =
     (if dict_get infobox ''National side'' \<noteq> '''' then dict_get infobox ''National side''
      else find_value infobox [''Country''])"
  "dict_get (derive_basic_fields now infobox hint) ''age'' =
     extract_age_from_born now (dict_get infobox ''Born'')"
  by (simp_all add: derive_basic_fields_def dict_get_def Let_def)

lemma find_value_first_key:
  "dict_get infobox k = v \<Longrightarrow> v \<noteq> '''' \<Longrightarrow> find_value infobox (k # ks) = v"
  using find_exact_hit[of "[]" infobox k v ks] by (simp add: find_value_def)

lemma derived_fields_used:
  "dict_get infobox ''Runs'' = v \<and> v \<noteq> '''' \<longrightarrow>
     dict_get (derive_basic_fields now infobox hint) ''runs'' = v"
  "dict_get infobox ''Wickets'' = v \<and> v \<noteq> '''' \<longrightarrow>
     dict_get (derive_basic_fields now infobox hint) ''wickets'' = v"
  "dict_get infobox ''Matches'' = v \<and> v \<noteq> '''' \<longrightarrow>
     dict_get (derive_basic_fields now infobox hint) ''matches'' = v"
  "dict_get infobox ''National side'' = v \<and> v \<noteq> '''' \<longrightarrow>
     dict_get (derive_basic_fields now infobox hint) ''country'' = v"
  "dict_get infobox ''National side'' = '''' \<and> dict_get infobox ''Country'' = v \<and> v \<noteq> '''' \<longrightarrow>
     dict_get (derive_basic_fields now infobox hint) ''country'' = v"
  by (simp_all only: derived_fields) (simp_all add: find_value_first_key)

lemma derived_fields_empty:
  "(\<forall>(ak, v') \<in> set infobox. v' = '''' \<or> \<not> relaxed_match [''Runs'', ''Runs scored'', ''IPL runs''] ak) \<longrightarrow>
     dict_get (derive_basic_fields now infobox hint) ''runs'' = ''''"
  "(\<forall>(ak, v') \<in> set infobox. v' = '''' \<or> \<not> relaxed_match [''Wickets'', ''IPL wickets''] ak) \<longrightarrow>
     dict_get (derive_basic_fields now infobox hint) ''wickets'' = ''''"
  "(\<forall>(ak, v') \<in> set infobox.
       v' = '''' \<or> \<not> relaxed_match [''Matches'', ''No. of IPL matches'', ''IPL matches''] ak) \<longrightarrow>
     dict_get (derive_basic_fields now infobox hint) ''matches'' = ''''"
  "dict_get infobox ''National side'' = '''' \<and>
   (\<forall>(ak, v') \<in> set infobox. v' = '''' \<or> \<not> relaxed_match [''Country''] ak) \<longrightarrow>
     dict_get (derive_basic_fields now infobox hint) ''country'' = ''''"
  "\<not> has_year (dict_get infobox ''Born'') \<longrightarrow>
     dict_get (derive_basic_fields now infobox hint) ''age'' = ''''"
  by (simp_all only: derived_fields)
     (simp_all add: find_value_nothing extract_age_from_born_def search_year_none)

lemma derived_fields_neither:
  "derive_basic_fields now [] '''' =
     [(''age'', ''''), (''runs'', ''''), (''wickets'', ''''), (''matches'', ''''), (''role'', ''''),
      (''country'', ''''), (''ipl_team'', '''')]"
  by (simp add: derive_basic_fields_def dict_get_def Let_def find_value_def extract_age_from_born_def)

text \<open>
  Claim C3. For every scalar that \<open>derive_basic_fields\<close> derives. The team: a non-empty hint
  wins whatever the infobox holds; with an empty hint the infobox value is used (the result
  of \<open>find_value\<close>, in particular a non-empty value under the key \<open>Current team\<close>); with an
  empty hint and no infobox entry that matches with a non-empty value the field is the empty
  string. The other scalars have no hint: runs, wickets and matches are the result of
  \<open>find_value\<close> on their candidate keys, the role is the value under \<open>Role\<close>, the country is
  the value under \<open>National side\<close> or else the result of \<open>find_value\<close> on \<open>Country\<close>, and the
  age is derived from the value under \<open>Born\<close>; so an infobox value under the first candidate
  key is used, and without a matching non-empty entry the field is the empty string. With
  an empty infobox and no hint every field is the empty string; the function has no failing
  path. For \<open>find_value\<close> on any candidate keys: the first candidate key with a non-empty
  value under exact lookup decides; the relaxed scan decides only when exact lookup yields
  nothing for every candidate key, and then the first infobox entry, in insertion order,
  that matches in the relaxed way with a non-empty value is returned; when nothing matches
  the result is the empty string.
\<close>

theorem field_precedence:
  "(hint \<noteq> '''' \<longrightarrow> dict_get (derive_basic_fields now infobox hint) ''ipl_team'' = hint) \<and>
   (dict_get (derive_basic_fields now infobox '''') ''ipl_team'' =
      find_value infobox [''Current team'', ''Team'']) \<and>
   (dict_get infobox ''Current team'' = v \<and> v \<noteq> '''' \<longrightarrow>
      dict_get (derive_basic_fields now infobox '''') ''ipl_team'' = v) \<and>
   ((\<forall>(ak, v') \<in> set infobox. v' = '''' \<or> \<not> relaxed_match [''Current team'', ''Team''] ak) \<longrightarrow>
      dict_get (derive_basic_fields now infobox '''') ''ipl_team'' = '''') \<and>
   ((\<forall>k' \<in> set ks1. dict_get infobox k' = '''') \<and> dict_get infobox k = v \<and> v \<noteq> '''' \<longrightarrow>
      find_value infobox (ks1 @ k # ks2) = v) \<and>
   ((\<forall>k \<in> set keys. dict_get infobox k = '''') \<and> infobox = items1 @ (ak, v) # items2 \<and>
    (\<forall>(ak', v') \<in> set items1. v' = '''' \<or> \<not> relaxed_match keys ak') \<and>
    relaxed_match keys ak \<and> v \<noteq> '''' \<longrightarrow>
      find_value infobox keys = v) \<and>
   ((\<forall>(ak, v') \<in> set infobox. v' = '''' \<or> \<not> relaxed_match keys ak) \<longrightarrow>
      find_value infobox keys = '''') \<and>
   dict_get (derive_basic_fields now infobox hint) ''runs'' =
     find_value infobox [''Runs'', ''Runs scored'', ''IPL runs''] \<and>
   dict_get (derive_basic_fields now infobox hint) ''wickets'' =
     find_value infobox [''Wickets'', ''IPL wickets''] \<and>
   dict_get (derive_basic_fields now infobox hint) ''matches'' =
     find_value infobox [''Matches'', ''No. of IPL matches'', ''IPL matches''] \<and>
   dict_get (derive_basic_fields now infobox hint) ''role'' = dict_get infobox ''Role'' \<and>
   dict_get (derive_basic_fields now infobox hint) ''country'' =
     (if dict_get infobox ''National side'' \<noteq> '''' then dict_get infobox ''National side''
      else find_value infobox [''Country'']) \<and>
   dict_get (derive_basic_fields now infobox hint) ''age'' =
     extract_age_from_born now (dict_get infobox ''Born'') \<and>
   (dict_get infobox ''Runs'' = v \<and> v \<noteq> '''' \<longrightarrow>
     dict_get (derive_basic_fields now infobox hint) ''runs'' = v) \<and>
   (dict_get infobox ''Wickets'' = v \<and> v \<noteq> '''' \<longrightarrow>
     dict_get (derive_basic_fields now infobox hint) ''wickets'' = v) \<and>
   (dict_get infobox ''Matches'' = v \<and> v \<noteq> '''' \<longrightarrow>
     dict_get (derive_basic_fields now infobox hint) ''matches'' = v) \<and>
   (dict_get infobox ''National side'' = v \<and> v \<noteq> '''' \<longrightarrow>
     dict_get (derive_basic_fields now infobox hint) ''country'' = v) \<and>
   (dict_get infobox ''National side'' = '''' \<and> dict_get infobox ''Country'' = v \<and> v \<noteq> '''' \<longrightarrow>
     dict_get (derive_basic_fields now infobox hint) ''country'' = v) \<and>
   ((\<forall>(ak, v') \<in> set infobox. v' = '''' \<or> \<not> relaxed_match [''Runs'', ''Runs scored'', ''IPL runs''] ak) \<longrightarrow>
     dict_get (derive_basic_fields now infobox hint) ''runs'' = '''') \<and>
   ((\<forall>(ak, v') \<in> set infobox. v' = '''' \<or> \<not> relaxed_match [''Wickets'', ''IPL wickets''] ak) \<longrightarrow>
     dict_get (derive_basic_fields now infobox hint) ''wickets'' = '''') \<and>
   ((\<forall>(ak, v') \<in> set infobox.
       v' = '''' \<or> \<not> relaxed_match [''Matches'', ''No. of IPL matches'', ''IPL matches''] ak) \<longrightarrow>
     dict_get (derive_basic_fields now infobox hint) ''matches'' = '''') \<and>
   (dict_get infobox ''National side'' = '''' \<and>
    (\<forall>(ak, v') \<in> set infobox. v' = '''' \<or> \<not> relaxed_match [''Country''] ak) \<longrightarrow>
     dict_get (derive_basic_fields now infobox hint) ''country'' = '''') \<and>
   (\<not> has_year (dict_get infobox ''Born'') \<longrightarrow>
     dict_get (derive_basic_fields now infobox hint) ''age'' = '''') \<and>
   derive_basic_fields now [] '''' =
     [(''age'', ''''), (''runs'', ''''), (''wickets'', ''''), (''matches'', ''''), (''role'', ''''),
      (''country'', ''''), (''ipl_team'', '''')]"
proof -
  note a = team_and_find_value[of hint now infobox v ks1 k ks2 keys items1 ak items2]
  note a1 = a[THEN conjunct1]
  note r1 = a[THEN conjunct2]
  note a2 = r1[THEN conjunct1]
  note r2 = r1[THEN conjunct2]
  note a3 = r2[THEN conjunct1]
  note r3 = r2[THEN conjunct2]
  note a4 = r3[THEN conjunct1]
  note r4 = r3[THEN conjunct2]
  note a5 = r4[THEN conjunct1]
  note r5 = r4[THEN conjunct2]
  note a6 = r5[THEN conjunct1]
  note a7 = r5[THEN conjunct2]
  show ?thesis
    by (intro conjI a1 a2 a3 a4 a5 a6 a7 derived_fields derived_fields_used derived_fields_empty
          derived_fields_neither)
qed

theorem field_precedence_witness:
  "dict_get (derive_basic_fields 2026
      [(''Born'', ''5 November 1988''), (''Current team'', ''Royal Challengers''),
       (''IPL team history'', ''Delhi'')] ''Mumbai Indians'') ''ipl_team'' = ''Mumbai Indians'' \<and>
   dict_get [(''Born'', ''5 November 1988''), (''Current team'', ''Royal Challengers''),
       (''IPL team history'', ''Delhi'')] ''Current team'' = ''Royal Challengers'' \<and>
   dict_get (derive_basic_fields 2026
      [(''Born'', ''5 November 1988''), (''Current team'', ''Royal Challengers''),
       (''IPL team history'', ''Delhi'')] '''') ''ipl_team'' = ''Royal Challengers'' \<and>
   list_all (\<lambda>(ak, v'). v' = '''' \<or> \<not> relaxed_match [''Current team'', ''Team''] ak)
      [(''Born'', ''5 November 1988'')] \<and>
   dict_get (derive_basic_fields 2026 [(''Born'', ''5 November 1988'')] '''') ''ipl_team'' = '''' \<and>
   list_all (\<lambda>k'. dict_get [(''IPL team history'', ''Delhi''), (''Team'', ''Chennai'')] k' = '''')
      [''Current team''] \<and>
   find_value [(''IPL team history'', ''Delhi''), (''Team'', ''Chennai'')]
      [''Current team'', ''Team''] = ''Chennai'' \<and>
   list_all (\<lambda>k. dict_get [(''Born'', ''1988''), (''IPL team history'', ''Delhi'')] k = '''')
      [''Current team'', ''Team''] \<and>
   relaxed_match [''Current team'', ''Team''] ''IPL team history'' \<and>
   find_value [(''Born'', ''1988''), (''IPL team history'', ''Delhi'')]
      [''Current team'', ''Team''] = ''Delhi'' \<and>
   dict_get [(''Born'', ''5 November 1988''), (''Role'', ''Batter''), (''National side'', ''India''),
       (''Runs scored'', ''8004''), (''Matches'', ''252'')] ''Matches'' = ''252'' \<and>
   dict_get (derive_basic_fields 2026
      [(''Born'', ''5 November 1988''), (''Role'', ''Batter''), (''National side'', ''India''),
       (''Runs scored'', ''8004''), (''Matches'', ''252'')] ''Mumbai Indians'') ''matches'' = ''252'' \<and>
   dict_get (derive_basic_fields 2026
      [(''Born'', ''5 November 1988''), (''Role'', ''Batter''), (''National side'', ''India''),
       (''Runs scored'', ''8004''), (''Matches'', ''252'')] ''Mumbai Indians'') ''country'' = ''India'' \<and>
   dict_get (derive_basic_fields 2026
      [(''Born'', ''5 November 1988''), (''Role'', ''Batter''), (''National side'', ''India''),
       (''Runs scored'', ''8004''), (''Matches'', ''252'')] ''Mumbai Indians'') ''runs'' = ''8004'' \<and>
   dict_get (derive_basic_fields 2026
      [(''Born'', ''5 November 1988''), (''Role'', ''Batter''), (''National side'', ''India''),
       (''Runs scored'', ''8004''), (''Matches'', ''252'')] ''Mumbai Indians'') ''role'' = ''Batter'' \<and>
   dict_get (derive_basic_fields 2026
      [(''Born'', ''5 November 1988''), (''Role'', ''Batter''), (''National side'', ''India''),
       (''Runs scored'', ''8004''), (''Matches'', ''252'')] ''Mumbai Indians'') ''age'' = ''38'' \<and>
   list_all (\<lambda>(ak, v'). v' = '''' \<or> \<not> relaxed_match [''Wickets'', ''IPL wickets''] ak)
      [(''Born'', ''5 November 1988''), (''Role'', ''Batter''), (''National side'', ''India''),
       (''Runs scored'', ''8004''), (''Matches'', ''252'')] \<and>
   dict_get (derive_basic_fields 2026
      [(''Born'', ''5 November 1988''), (''Role'', ''Batter''), (''National side'', ''India''),
       (''Runs scored'', ''8004''), (''Matches'', ''252'')] ''Mumbai Indians'') ''wickets'' = '''' \<and>
   derive_basic_fields 2026 [] '''' =
      [(''age'', ''''), (''runs'', ''''), (''wickets'', ''''), (''matches'', ''''), (''role'', ''''),
       (''country'', ''''), (''ipl_team'', '''')]"
proof -
  note r1 = field_precedence[THEN conjunct2]
  note r2 = r1[THEN conjunct2]
  note r3 = r2[THEN conjunct2]
  note r4 = r3[THEN conjunct2]
  note r5 = r4[THEN conjunct2]
  note r6 = r5[THEN conjunct2]
  note r7 = r6[THEN conjunct2]
  note r8 = r7[THEN conjunct2]
  note r9 = r8[THEN conjunct2]
  note r10 = r9[THEN conjunct2]
  note r11 = r10[THEN conjunct2]
  note r12 = r11[THEN conjunct2]
  note r13 = r12[THEN conjunct2]
  note r14 = r13[THEN conjunct2]
  note r15 = r14[THEN conjunct2]
  note r16 = r15[THEN conjunct2]
  note r17 = r16[THEN conjunct2]
  note r18 = r17[THEN conjunct2]
  note r19 = r18[THEN conjunct2]
  note r20 = r19[THEN conjunct2]
  note r21 = r20[THEN conjunct2]
  note r22 = r21[THEN conjunct2]
  note r23 = r22[THEN conjunct2]
  note p1 = field_precedence[THEN conjunct1]
  note p2 = r1[THEN conjunct1]
  note p3 = r2[THEN conjunct1]
  note p4 = r3[THEN conjunct1]
  note p5 = r4[THEN conjunct1]
  note p6 = r5[THEN conjunct1]
  note p7 = r6[THEN conjunct1]
  note p8 = r7[THEN conjunct1]
  note p9 = r8[THEN conjunct1]
  note p10 = r9[THEN conjunct1]
  note p11 = r10[THEN conjunct1]
  note p12 = r11[THEN conjunct1]
  note p13 = r12[THEN conjunct1]
  note p14 = r13[THEN conjunct1]
  note p15 = r14[THEN conjunct1]
  note p16 = r15[THEN conjunct1]
  note p17 = r16[THEN conjunct1]
  note p18 = r17[THEN conjunct1]
  note p19 = r18[THEN conjunct1]
  note p20 = r19[THEN conjunct1]
  note p21 = r20[THEN conjunct1]
  note p22 = r21[THEN conjunct1]
  note p23 = r22[THEN conjunct1]
  note p24 = r23
  let ?ib1 = "[(''Born'', ''5 November 1988''), (''Current team'', ''Royal Challengers''),
       (''IPL team history'', ''Delhi'')]"
  let ?ib2 = "[(''Born'', ''5 November 1988'')]"
  let ?ib3 = "[(''IPL team history'', ''Delhi''), (''Team'', ''Chennai'')]"
  let ?ib4 = "[(''Born'', ''1988''), (''IPL team history'', ''Delhi'')]"
  let ?ib5 = "[(''Born'', ''5 November 1988''), (''Role'', ''Batter''), (''National side'', ''India''),
       (''Runs scored'', ''8004''), (''Matches'', ''252'')]"
  let ?keys = "[''Current team'', ''Team'']"
  have c1: "dict_get (derive_basic_fields 2026 ?ib1 ''Mumbai Indians'') ''ipl_team'' = ''Mumbai Indians''"
    by (rule p1[THEN mp]) simp
  have h2: "dict_get ?ib1 ''Current team'' = ''Royal Challengers''" by (simp add: dict_get_def)
  have c2: "dict_get (derive_basic_fields 2026 ?ib1 '''') ''ipl_team'' = ''Royal Challengers''"
    by (rule p3[THEN mp]) (simp add: h2)
  have h3: "list_all (\<lambda>(ak, v'). v' = '''' \<or> \<not> relaxed_match ?keys ak) ?ib2"
    by (simp add: relaxed_match_def text_eval)
  have c3: "dict_get (derive_basic_fields 2026 ?ib2 '''') ''ipl_team'' = ''''"
    by (rule p4[THEN mp]) (rule h3[unfolded list_all_iff])
  have h4: "list_all (\<lambda>k'. dict_get ?ib3 k' = '''') [''Current team'']"
    by (simp add: dict_get_def)
  have h4': "dict_get ?ib3 ''Team'' = ''Chennai''" by (simp add: dict_get_def)
  have n4: "''Chennai'' \<noteq> ''''" by simp
  have "find_value ?ib3 ([''Current team''] @ ''Team'' # []) = ''Chennai''"
    by (rule p5[THEN mp]) (intro conjI h4[unfolded list_all_iff] h4' n4)
  then have c4: "find_value ?ib3 ?keys = ''Chennai''" by simp
  have h5: "list_all (\<lambda>k. dict_get ?ib4 k = '''') ?keys" by (simp add: dict_get_def)
  have h5': "relaxed_match ?keys ''IPL team history''" by (simp add: relaxed_match_def text_eval)
  have h5'': "list_all (\<lambda>(ak, v'). v' = '''' \<or> \<not> relaxed_match ?keys ak) [(''Born'', ''1988'')]"
    by (simp add: relaxed_match_def text_eval)
  have e5: "?ib4 = [(''Born'', ''1988'')] @ (''IPL team history'', ''Delhi'') # []" by simp
  have n5: "''Delhi'' \<noteq> ''''" by simp
  have a5: "(\<forall>k \<in> set ?keys. dict_get ?ib4 k = '''') \<and>
      ?ib4 = [(''Born'', ''1988'')] @ (''IPL team history'', ''Delhi'') # [] \<and>
      (\<forall>(ak', v') \<in> set [(''Born'', ''1988'')]. v' = '''' \<or> \<not> relaxed_match ?keys ak') \<and>
      relaxed_match ?keys ''IPL team history'' \<and> ''Delhi'' \<noteq> ''''"
    by (intro conjI h5[unfolded list_all_iff] h5' h5''[unfolded list_all_iff] e5 n5)
  have c5: "find_value ?ib4 ?keys = ''Delhi''"
    by (rule p6[THEN mp, OF a5])
  have h6: "dict_get ?ib5 ''Matches'' = ''252''" by (simp add: dict_get_def)
  have c6: "dict_get (derive_basic_fields 2026 ?ib5 ''Mumbai Indians'') ''matches'' = ''252''"
    by (rule p16[THEN mp]) (simp add: h6)
  have h7: "dict_get ?ib5 ''National side'' = ''India''" by (simp add: dict_get_def)
  have c7: "dict_get (derive_basic_fields 2026 ?ib5 ''Mumbai Indians'') ''country'' = ''India''"
    by (rule p17[THEN mp]) (simp add: h7)
  have c8: "dict_get (derive_basic_fields 2026 ?ib5 ''Mumbai Indians'') ''runs'' = ''8004''"
    by (simp only: p8) (simp add: find_value_def)
  have c9: "dict_get (derive_basic_fields 2026 ?ib5 ''Mumbai Indians'') ''role'' = ''Batter''"
    by (simp only: p11) (simp add: dict_get_def)
  have c10: "dict_get (derive_basic_fields 2026 ?ib5 ''Mumbai Indians'') ''age'' = ''38''"
    by (simp only: p13)
       (simp add: dict_get_def extract_age_from_born_def isdigit_def int_of_digits_def str_int_def
          str_nat.simps digit_char_def)
  have h11: "list_all (\<lambda>(ak, v'). v' = '''' \<or> \<not> relaxed_match [''Wickets'', ''IPL wickets''] ak) ?ib5"
    by (simp add: relaxed_match_def text_eval)
  have c11: "dict_get (derive_basic_fields 2026 ?ib5 ''Mumbai Indians'') ''wickets'' = ''''"
    by (rule p20[THEN mp]) (rule h11[unfolded list_all_iff])
  have c12: "derive_basic_fields 2026 [] '''' =
      [(''age'', ''''), (''runs'', ''''), (''wickets'', ''''), (''matches'', ''''), (''role'', ''''),
       (''country'', ''''), (''ipl_team'', '''')]"
    by (rule p24)
  show ?thesis
    by (intro conjI c1 h2 c2 h3 c3 h4 c4 h5 h5' c5 h6 c6 c7 c8 c9 c10 h11 c11 c12)
qed

section \<open>Upsert of the metadata store\<close>






















section \<open>Retry behaviour of the clients\<close>

lemma sent_throttle: "sent (throttle interval st) = sent st"
  by (simp add: throttle_def Let_def)

lemma get_loop_retry:
  assumes "srv (sent st) = (dur, Response status_code body)"
    and "status_code \<in> {403, 429, 500, 502, 503, 504}" and "attempt < retries - 1"
  shows "get_loop interval srv retries (attempt # rest) st =
         get_loop interval srv retries rest (retried interval dur attempt st)"
proof -
  have "srv (sent (throttle interval st)) = (dur, Response status_code body)"
    using assms(1) by (simp only: sent_throttle)
  moreover have "backoff_sleep (real (attempt + 1) * interval)
      ((throttle interval st)\<lparr>clock := clock (throttle interval st) + dur,
          sent := sent (throttle interval st) + 1,
          log := log (throttle interval st) @ [Request],
          last_request_ts := clock (throttle interval st) + dur\<rparr>) =
      retried interval dur attempt st"
    by (simp add: backoff_sleep_def retried_def Let_def)
  ultimately show ?thesis using assms(2,3) by (simp add: Let_def)
qed

lemma get_loop_answer:
  assumes "srv (sent st) = (dur, Response status_code body)"
    and "\<not> (status_code \<in> {403, 429, 500, 502, 503, 504} \<and> attempt < retries - 1)"
  shows "get_loop interval srv retries (attempt # rest) st =
         (if raises_for_status status_code then Inl (Raised (HTTPError status_code))
          else Inr (status_code, body), answered interval dur st)"
proof -
  have "srv (sent (throttle interval st)) = (dur, Response status_code body)"
    using assms(1) by (simp only: sent_throttle)
  moreover have "(throttle interval st)\<lparr>clock := clock (throttle interval st) + dur,
          sent := sent (throttle interval st) + 1,
          log := log (throttle interval st) @ [Request],
          last_request_ts := clock (throttle interval st) + dur\<rparr> =
      answered interval dur st"
    by (simp add: answered_def Let_def)
  ultimately show ?thesis using assms(2) by (auto simp: Let_def)
qed

lemma throttle_retried:
  "0 \<le> interval \<Longrightarrow>
   throttle interval (retried interval dur attempt st) = retried interval dur attempt st"
proof -
  assume "0 \<le> interval"
  then have "0 \<le> real attempt * interval" by simp
  then have "\<not> interval - real (attempt + 1) * interval > 0" by (simp add: algebra_simps)
  then show ?thesis by (simp add: throttle_def retried_def Let_def algebra_simps)
qed

lemma sent_retried: "sent (retried interval dur attempt st) = sent st + 1"
  by (simp add: retried_def Let_def sent_throttle)

lemma log_retried:
  "0 \<le> interval \<Longrightarrow>
   log (retried interval dur attempt (retried interval dur' attempt' st)) =
   log (retried interval dur' attempt' st) @ [Request, Backoff (real (attempt + 1) * interval)]"
  using throttle_retried[of interval dur' attempt' st]
  by (simp add: retried_def[of interval dur attempt] Let_def)

lemma log_retried_first:
  "log (retried interval dur attempt st) =
   log (throttle interval st) @ [Request, Backoff (real (attempt + 1) * interval)]"
  by (simp add: retried_def Let_def)

lemma log_answered_retried:
  "0 \<le> interval \<Longrightarrow>
   log (answered interval dur (retried interval dur' attempt' st)) =
   log (retried interval dur' attempt' st) @ [Request]"
  using throttle_retried[of interval dur' attempt' st]
  by (simp add: answered_def Let_def)

lemma sent_answered: "sent (answered interval dur st) = sent st + 1"
  by (simp add: answered_def Let_def sent_throttle)

lemma backoffs_append: "backoffs (xs @ ys) = backoffs xs @ backoffs ys"
  by (induction xs rule: backoffs.induct) simp_all

lemma get_three_503_then_200:
  assumes I: "0 < interval"
    and r0: "srv (sent st) = (d0, Response 503 b0)"
    and r1: "srv (sent st + 1) = (d1, Response 503 b1)"
    and r2: "srv (sent st + 2) = (d2, Response 503 b2)"
    and r3: "srv (sent st + 3) = (d3, Response 200 body)"
  shows "fst (get interval srv st) = Inr (200, body)"
    and "sent (snd (get interval srv st)) = sent st + 4"
    and "log (snd (get interval srv st)) =
         log (throttle interval st) @
           [Request, Backoff interval, Request, Backoff (2 * interval),
            Request, Backoff (3 * interval), Request]"
proof -
  let ?s1 = "retried interval d0 0 st"
  let ?s2 = "retried interval d1 1 ?s1"
  let ?s3 = "retried interval d2 2 ?s2"
  let ?s4 = "answered interval d3 ?s3"
  have I0: "0 \<le> interval" using I by simp
  have n1: "sent ?s1 = sent st + 1" by (simp add: sent_retried)
  have n2: "sent ?s2 = sent st + 2" by (simp add: sent_retried)
  have n3: "sent ?s3 = sent st + 3" by (simp add: sent_retried)
  have r1': "srv (sent ?s1) = (d1, Response 503 b1)" using r1 by (simp only: n1)
  have r2': "srv (sent ?s2) = (d2, Response 503 b2)" using r2 by (simp only: n2)
  have r3': "srv (sent ?s3) = (d3, Response 200 body)" using r3 by (simp only: n3)
  have u: "[0..<4] = [0, 1, 2, 3 :: nat]" by (simp add: upt_rec)
  have "get interval srv st = get_loop interval srv 4 [0, 1, 2, 3] st"
    by (simp only: get_def Let_def u)
  also have "\<dots> = get_loop interval srv 4 [1, 2, 3] ?s1"
    by (rule get_loop_retry[where srv=srv and st=st, OF r0]) simp_all
  also have "\<dots> = get_loop interval srv 4 [2, 3] ?s2"
    by (rule get_loop_retry[where srv=srv and st="?s1", OF r1']) simp_all
  also have "\<dots> = get_loop interval srv 4 [3] ?s3"
    by (rule get_loop_retry[where srv=srv and st="?s2", OF r2']) simp_all
  also have "\<dots> = (if raises_for_status 200 then Inl (Raised (HTTPError 200))
          else Inr (200, body), ?s4)"
    by (rule get_loop_answer[where srv=srv and st="?s3", OF r3']) simp
  finally have g: "get interval srv st = (Inr (200, body), ?s4)"
    by (simp add: raises_for_status_def)
  show "fst (get interval srv st) = Inr (200, body)" using g by simp
  show "sent (snd (get interval srv st)) = sent st + 4"
    using g n3 by (simp add: sent_answered)
  have "log ?s4 = log ?s3 @ [Request]" using I0 by (rule log_answered_retried)
  also have "log ?s3 = log ?s2 @ [Request, Backoff (real (2 + 1) * interval)]"
    using I0 by (rule log_retried)
  also have "log ?s2 = log ?s1 @ [Request, Backoff (real (1 + 1) * interval)]"
    using I0 by (rule log_retried)
  also have "log ?s1 = log (throttle interval st) @ [Request, Backoff (real (0 + 1) * interval)]"
    by (rule log_retried_first)
  finally show "log (snd (get interval srv st)) =
         log (throttle interval st) @
           [Request, Backoff interval, Request, Backoff (2 * interval),
            Request, Backoff (3 * interval), Request]"
    using g by simp
qed

lemma backoffs_throttle: "backoffs (log (throttle interval st)) = backoffs (log st)"
  by (simp add: throttle_def Let_def backoffs_append)

lemma get_json_three_503:
  assumes r0: "srv (sent st) = (d0, Response 503 b0)"
    and r1: "srv (sent st + 1) = (d1, Response 503 b1)"
    and r2: "srv (sent st + 2) = (d2, Response 503 b2)"
  shows "fst (get_json srv json st) = Inl (RuntimeError None)"
    and "sent (snd (get_json srv json st)) = sent st + 3"
    and "log (snd (get_json srv json st)) =
         log st @ [Request, Backoff 1.5, Request, Backoff 3, Request, Backoff 4.5]"
  using assms
  by (simp_all add: get_json_def upt_rec Let_def backoff_sleep_def)

text \<open>
  Claim C6, as the code has it. When the first three requests of a call are answered with
  status 503 and the fourth with status 200, \<open>get\<close> (four attempts) returns the 200
  response after exactly four requests, and between the requests it sleeps exactly the
  backoff delays \<open>interval\<close>, \<open>2 * interval\<close>, \<open>3 * interval\<close>, which increase strictly
  (the rate limiter adds no sleep after a backoff). \<open>get_json\<close> (three attempts) gives up
  after the third 503 with a \<open>RuntimeError\<close>: it sleeps 1.5, 3 and 4.5 seconds and never
  sends a fourth request.
\<close>

theorem retry_three_503_then_200:
  "0 < interval \<and>
   srv (sent st) = (d0, Response 503 b0) \<and> srv (sent st + 1) = (d1, Response 503 b1) \<and>
   srv (sent st + 2) = (d2, Response 503 b2) \<and> srv (sent st + 3) = (d3, Response 200 body) \<longrightarrow>
     fst (get interval srv st) = Inr (200, body) \<and>
     sent (snd (get interval srv st)) = sent st + 4 \<and>
     log (snd (get interval srv st)) =
       log (throttle interval st) @
         [Request, Backoff interval, Request, Backoff (2 * interval),
          Request, Backoff (3 * interval), Request] \<and>
     backoffs (log (snd (get interval srv st))) =
       backoffs (log st) @ [interval, 2 * interval, 3 * interval] \<and>
     sorted_wrt (<) [interval, 2 * interval, 3 * interval] \<and>
     fst (get_json srv json st) = Inl (RuntimeError None) \<and>
     sent (snd (get_json srv json st)) = sent st + 3 \<and>
     log (snd (get_json srv json st)) =
       log st @ [Request, Backoff 1.5, Request, Backoff 3, Request, Backoff 4.5]"
proof (intro impI)
  assume a: "0 < interval \<and>
   srv (sent st) = (d0, Response 503 b0) \<and> srv (sent st + 1) = (d1, Response 503 b1) \<and>
   srv (sent st + 2) = (d2, Response 503 b2) \<and> srv (sent st + 3) = (d3, Response 200 body)"
  then have I: "0 < interval" and r0: "srv (sent st) = (d0, Response 503 b0)"
    and r1: "srv (sent st + 1) = (d1, Response 503 b1)"
    and r2: "srv (sent st + 2) = (d2, Response 503 b2)"
    and r3: "srv (sent st + 3) = (d3, Response 200 body)"
    by simp_all
  note g = get_three_503_then_200[OF I r0 r1 r2 r3]
  note j = get_json_three_503[OF r0 r1 r2, of json]
  have b: "backoffs (log (snd (get interval srv st))) =
       backoffs (log st) @ [interval, 2 * interval, 3 * interval]"
    by (simp add: g(3) backoffs_append backoffs_throttle)
  have s: "sorted_wrt (<) [interval, 2 * interval, 3 * interval]" using I by simp
  show "fst (get interval srv st) = Inr (200, body) \<and>
     sent (snd (get interval srv st)) = sent st + 4 \<and>
     log (snd (get interval srv st)) =
       log (throttle interval st) @
         [Request, Backoff interval, Request, Backoff (2 * interval),
          Request, Backoff (3 * interval), Request] \<and>
     backoffs (log (snd (get interval srv st))) =
       backoffs (log st) @ [interval, 2 * interval, 3 * interval] \<and>
     sorted_wrt (<) [interval, 2 * interval, 3 * interval] \<and>
     fst (get_json srv json st) = Inl (RuntimeError None) \<and>
     sent (snd (get_json srv json st)) = sent st + 3 \<and>
     log (snd (get_json srv json st)) =
       log st @ [Request, Backoff 1.5, Request, Backoff 3, Request, Backoff 4.5]"
    by (intro conjI g b s j)
qed

theorem retry_three_503_then_200_witness:
  "(0::real) < 1.2 \<and>
   (\<lambda>n::nat. (0.5::real, if n < 3 then Response 503 '''' else Response 200 ''ok'')) (sent idle) =
     (0.5::real, Response 503 '''') \<and>
   (\<lambda>n::nat. (0.5::real, if n < 3 then Response 503 '''' else Response 200 ''ok'')) (sent idle + 3) =
     (0.5, Response 200 ''ok'') \<and>
   fst (get 1.2 (\<lambda>n::nat. (0.5::real, if n < 3 then Response 503 '''' else Response 200 ''ok'')) idle) =
     Inr (200, ''ok'') \<and>
   sent (snd (get 1.2 (\<lambda>n::nat. (0.5::real, if n < 3 then Response 503 '''' else Response 200 ''ok'')) idle)) = 4 \<and>
   backoffs (log (snd (get 1.2
      (\<lambda>n::nat. (0.5::real, if n < 3 then Response 503 '''' else Response 200 ''ok'')) idle))) =
     [1.2, 2.4, 3.6]"
proof -
  let ?srv = "\<lambda>n::nat. (0.5::real, if n < 3 then Response 503 '''' else Response 200 ''ok'')"
  have h: "(0::real) < 1.2 \<and>
     ?srv (sent idle) = (0.5, Response 503 '''') \<and> ?srv (sent idle + 1) = (0.5, Response 503 '''') \<and>
     ?srv (sent idle + 2) = (0.5, Response 503 '''') \<and> ?srv (sent idle + 3) = (0.5, Response 200 ''ok'')"
    by (simp add: idle_def)
  note t = retry_three_503_then_200[of "1.2" ?srv idle "0.5" "''''" "0.5" "''''" "0.5" "''''" "0.5" "''ok''" Some,
      THEN mp, OF h]
  have h0: "(0::real) < 1.2" by simp
  have h1: "?srv (sent idle) = (0.5, Response 503 '''')" by (simp add: idle_def)
  have h2: "?srv (sent idle + 3) = (0.5, Response 200 ''ok'')" by (simp add: idle_def)
  have c1: "fst (get 1.2 ?srv idle) = Inr (200, ''ok'')" using t by (rule conjunct1)
  have c2: "sent (snd (get 1.2 ?srv idle)) = 4"
    using t[THEN conjunct2, THEN conjunct1] by (simp add: idle_def)
  have c3: "backoffs (log (snd (get 1.2 ?srv idle))) = [1.2, 2.4, 3.6]"
    using t[THEN conjunct2, THEN conjunct2, THEN conjunct2, THEN conjunct1] by (simp add: idle_def)
  show ?thesis by (intro conjI h0 h1 h2 c1 c2 c3)
qed

text \<open>
  The claim as stated, for every fetch through either client, fails on \<open>get_json\<close>: after
  three 503 responses it raises and the 200 response of a fourth request is never fetched.
\<close>

theorem retry_three_503_then_200_counterexample:
  "fst (get_json (\<lambda>n. (0, if n < 3 then Response 503 '''' else Response 200 ''ok'')) Some idle) =
     Inl (RuntimeError None) \<and>
   sent (snd (get_json (\<lambda>n. (0, if n < 3 then Response 503 '''' else Response 200 ''ok'')) Some idle)) = 3"
  by (simp add: get_json_def idle_def upt_rec Let_def backoff_sleep_def)


section \<open>Deduplication of the listing\<close>

lemmas listing_eval =
  extract_players_from_espn_html_def candidates_def findall_names_def findall_teams_def quoted_def
  match_field_def dedup_key_def str_strip_def str_split_def name_shaped_def name_char_def Let_def

lemma dedup_loop_acc: "dedup_loop seen out ps = out @ dedup_loop seen [] ps"
proof (induction ps arbitrary: seen out)
  case Nil
  show ?case by simp
next
  case (Cons p ps)
  show ?case
  proof (cases "dedup_key p \<noteq> [] \<and> dedup_key p \<notin> seen")
    case True
    then show ?thesis
      using Cons[of "insert (dedup_key p) seen" "out @ [p]"] Cons[of "insert (dedup_key p) seen" "[p]"]
      by (simp add: Let_def)
  next
    case False
    then show ?thesis using Cons[of seen out] by (auto simp: Let_def)
  qed
qed

lemma dedup_loop_keep:
  "dedup_key p \<noteq> [] \<Longrightarrow> dedup_key p \<notin> seen \<Longrightarrow>
   dedup_loop seen [] (p # ps) = p # dedup_loop (insert (dedup_key p) seen) [] ps"
  using dedup_loop_acc[of "insert (dedup_key p) seen" "[p]" ps] by (simp add: Let_def)

lemma dedup_loop_drop:
  "dedup_key p = [] \<or> dedup_key p \<in> seen \<Longrightarrow> dedup_loop seen [] (p # ps) = dedup_loop seen [] ps"
  by (auto simp: Let_def)

declare dedup_loop.simps(2) [simp del]

lemma dedup_loop_keys:
  "q \<in> set (dedup_loop seen [] ps) \<Longrightarrow> dedup_key q \<noteq> [] \<and> dedup_key q \<notin> seen \<and> q \<in> set ps"
proof (induction ps arbitrary: seen)
  case Nil
  then show ?case by simp
next
  case (Cons p ps)
  show ?case
  proof (cases "dedup_key p \<noteq> [] \<and> dedup_key p \<notin> seen")
    case True
    then have "dedup_loop seen [] (p # ps) = p # dedup_loop (insert (dedup_key p) seen) [] ps"
      by (intro dedup_loop_keep) simp_all
    with Cons.prems have "q = p \<or> q \<in> set (dedup_loop (insert (dedup_key p) seen) [] ps)" by simp
    then show ?thesis
    proof
      assume "q = p"
      with True show ?thesis by simp
    next
      assume "q \<in> set (dedup_loop (insert (dedup_key p) seen) [] ps)"
      then have "dedup_key q \<noteq> [] \<and> dedup_key q \<notin> insert (dedup_key p) seen \<and> q \<in> set ps"
        by (rule Cons.IH)
      then show ?thesis by simp
    qed
  next
    case False
    then have "dedup_loop seen [] (p # ps) = dedup_loop seen [] ps"
      by (intro dedup_loop_drop) blast
    with Cons.prems have "q \<in> set (dedup_loop seen [] ps)" by simp
    then have "dedup_key q \<noteq> [] \<and> dedup_key q \<notin> seen \<and> q \<in> set ps" by (rule Cons.IH)
    then show ?thesis by simp
  qed
qed

lemma dedup_loop_distinct: "distinct (map dedup_key (dedup_loop seen [] ps))"
proof (induction ps arbitrary: seen)
  case Nil
  show ?case by simp
next
  case (Cons p ps)
  show ?case
  proof (cases "dedup_key p \<noteq> [] \<and> dedup_key p \<notin> seen")
    case True
    then have eq: "dedup_loop seen [] (p # ps) = p # dedup_loop (insert (dedup_key p) seen) [] ps"
      by (intro dedup_loop_keep) simp_all
    have "dedup_key p \<notin> dedup_key ` set (dedup_loop (insert (dedup_key p) seen) [] ps)"
    proof
      assume "dedup_key p \<in> dedup_key ` set (dedup_loop (insert (dedup_key p) seen) [] ps)"
      then obtain q where q: "q \<in> set (dedup_loop (insert (dedup_key p) seen) [] ps)"
        and k: "dedup_key p = dedup_key q" by blast
      from q have "dedup_key q \<notin> insert (dedup_key p) seen"
        using dedup_loop_keys[of q "insert (dedup_key p) seen" ps] by blast
      with k show False by simp
    qed
    then show ?thesis using eq Cons.IH[of "insert (dedup_key p) seen"] by simp
  next
    case False
    then have "dedup_loop seen [] (p # ps) = dedup_loop seen [] ps"
      by (intro dedup_loop_drop) blast
    then show ?thesis using Cons.IH[of seen] by simp
  qed
qed

lemma dedup_loop_subseq: "subseq (dedup_loop seen [] ps) ps"
proof (induction ps arbitrary: seen)
  case Nil
  show ?case by simp
next
  case (Cons p ps)
  show ?case
  proof (cases "dedup_key p \<noteq> [] \<and> dedup_key p \<notin> seen")
    case True
    then have "dedup_loop seen [] (p # ps) = p # dedup_loop (insert (dedup_key p) seen) [] ps"
      by (intro dedup_loop_keep) simp_all
    then show ?thesis using Cons.IH[of "insert (dedup_key p) seen"] by simp
  next
    case False
    then have "dedup_loop seen [] (p # ps) = dedup_loop seen [] ps"
      by (intro dedup_loop_drop) blast
    then show ?thesis using Cons.IH[of seen] by auto
  qed
qed

lemma dedup_loop_first:
  "q \<in> set (dedup_loop seen [] ps) \<Longrightarrow>
   \<exists>pre post. ps = pre @ q # post \<and> (\<forall>r \<in> set pre. dedup_key r \<noteq> dedup_key q)"
proof (induction ps arbitrary: seen)
  case Nil
  then show ?case by simp
next
  case (Cons p ps)
  show ?case
  proof (cases "dedup_key p \<noteq> [] \<and> dedup_key p \<notin> seen")
    case True
    then have "dedup_loop seen [] (p # ps) = p # dedup_loop (insert (dedup_key p) seen) [] ps"
      by (intro dedup_loop_keep) simp_all
    with Cons.prems have "q = p \<or> q \<in> set (dedup_loop (insert (dedup_key p) seen) [] ps)" by simp
    then show ?thesis
    proof
      assume "q = p"
      then have "p # ps = [] @ q # ps \<and> (\<forall>r \<in> set []. dedup_key r \<noteq> dedup_key q)" by simp
      then show ?thesis by blast
    next
      assume q: "q \<in> set (dedup_loop (insert (dedup_key p) seen) [] ps)"
      then obtain pre post where pp: "ps = pre @ q # post" "\<forall>r \<in> set pre. dedup_key r \<noteq> dedup_key q"
        using Cons.IH[of "insert (dedup_key p) seen"] by blast
      from q have "dedup_key q \<notin> insert (dedup_key p) seen"
        using dedup_loop_keys[of q "insert (dedup_key p) seen" ps] by blast
      then have "dedup_key p \<noteq> dedup_key q" by auto
      with pp have "p # ps = (p # pre) @ q # post \<and> (\<forall>r \<in> set (p # pre). dedup_key r \<noteq> dedup_key q)"
        by simp
      then show ?thesis by blast
    qed
  next
    case False
    then have "dedup_loop seen [] (p # ps) = dedup_loop seen [] ps"
      by (intro dedup_loop_drop) blast
    with Cons.prems have q: "q \<in> set (dedup_loop seen [] ps)" by simp
    then obtain pre post where pp: "ps = pre @ q # post" "\<forall>r \<in> set pre. dedup_key r \<noteq> dedup_key q"
      using Cons.IH[of seen] by blast
    from q have "dedup_key q \<noteq> [] \<and> dedup_key q \<notin> seen"
      using dedup_loop_keys[of q seen ps] by blast
    with False have "dedup_key p \<noteq> dedup_key q" by auto
    with pp have "p # ps = (p # pre) @ q # post \<and> (\<forall>r \<in> set (p # pre). dedup_key r \<noteq> dedup_key q)"
      by simp
    then show ?thesis by blast
  qed
qed

lemma dedup_loop_complete:
  "q \<in> set ps \<Longrightarrow> dedup_key q \<noteq> [] \<Longrightarrow> dedup_key q \<notin> seen \<Longrightarrow>
   dedup_key q \<in> dedup_key ` set (dedup_loop seen [] ps)"
proof (induction ps arbitrary: seen)
  case Nil
  then show ?case by simp
next
  case (Cons p ps)
  show ?case
  proof (cases "dedup_key p \<noteq> [] \<and> dedup_key p \<notin> seen")
    case True
    then have eq: "dedup_loop seen [] (p # ps) = p # dedup_loop (insert (dedup_key p) seen) [] ps"
      by (intro dedup_loop_keep) simp_all
    show ?thesis
    proof (cases "dedup_key q = dedup_key p")
      case True
      then show ?thesis using eq by simp
    next
      case False
      with Cons.prems have "q \<in> set ps" by auto
      moreover have "dedup_key q \<notin> insert (dedup_key p) seen" using False Cons.prems(3) by simp
      ultimately have "dedup_key q \<in> dedup_key ` set (dedup_loop (insert (dedup_key p) seen) [] ps)"
        using Cons.prems(2) by (intro Cons.IH)
      then show ?thesis using eq by simp
    qed
  next
    case False
    then have eq: "dedup_loop seen [] (p # ps) = dedup_loop seen [] ps"
      by (intro dedup_loop_drop) blast
    from False Cons.prems have "q \<noteq> p" by auto
    with Cons.prems have "q \<in> set ps" by simp
    then have "dedup_key q \<in> dedup_key ` set (dedup_loop seen [] ps)"
      using Cons.prems(2,3) by (intro Cons.IH)
    then show ?thesis using eq by simp
  qed
qed

lemma script_players_team: "p \<in> set (script_players ns) \<Longrightarrow> ipl_team p = []"
  by (induction ns) (auto split: if_splits)

lemma table_players_team: "p \<in> set (table_players rows) \<Longrightarrow> ipl_team p = []"
  by (induction rows) (auto simp: Let_def split: if_splits)

lemma candidates_team: "p \<in> set (candidates soup_rows html) \<Longrightarrow> ipl_team p = []"
  by (auto simp: candidates_def Let_def script_players_team table_players_team split: if_splits)

lemma extract_subset: "set (extract_players_from_espn_html soup_rows html) \<subseteq> set (candidates soup_rows html)"
  using dedup_loop_keys[of _ "{}" "candidates soup_rows html"]
  by (auto simp: extract_players_from_espn_html_def)

text \<open>
  Claim C8, as the code has it. The result holds no two entries with the same name up to
  surrounding whitespace and letter case; it is a subsequence of the candidate list, and
  each of its entries is the first candidate with that name (up to case), so the order of
  the candidate list is kept; every candidate with a non-blank name is represented. The
  candidate list itself is in the sorted order of the distinct matched names when the script
  scan yields a usable name, and in row order of the table otherwise.
\<close>

theorem listing_dedup:
  "distinct (map dedup_key (extract_players_from_espn_html soup_rows html)) \<and>
   (p \<in> set (extract_players_from_espn_html soup_rows html) \<and>
    q \<in> set (extract_players_from_espn_html soup_rows html) \<and>
    str_lower (str_strip (name p)) = str_lower (str_strip (name q)) \<longrightarrow> p = q) \<and>
   subseq (extract_players_from_espn_html soup_rows html) (candidates soup_rows html) \<and>
   (\<forall>q \<in> set (extract_players_from_espn_html soup_rows html).
      \<exists>pre post. candidates soup_rows html = pre @ q # post \<and>
        (\<forall>r \<in> set pre. dedup_key r \<noteq> dedup_key q)) \<and>
   (\<forall>q \<in> set (candidates soup_rows html).
      dedup_key q \<noteq> '''' \<longrightarrow>
      dedup_key q \<in> dedup_key ` set (extract_players_from_espn_html soup_rows html)) \<and>
   candidates soup_rows html =
     (if script_players (sort (remdups (findall_names html))) \<noteq> []
      then script_players (sort (remdups (findall_names html)))
      else table_players (soup_rows html))"
proof (intro conjI impI ballI)
  show d: "distinct (map dedup_key (extract_players_from_espn_html soup_rows html))"
    by (simp add: extract_players_from_espn_html_def dedup_loop_distinct)
  show "subseq (extract_players_from_espn_html soup_rows html) (candidates soup_rows html)"
    by (simp add: extract_players_from_espn_html_def dedup_loop_subseq)
  show "candidates soup_rows html =
     (if script_players (sort (remdups (findall_names html))) \<noteq> []
      then script_players (sort (remdups (findall_names html)))
      else table_players (soup_rows html))"
    by (simp add: candidates_def Let_def)
  {
    assume a: "p \<in> set (extract_players_from_espn_html soup_rows html) \<and>
      q \<in> set (extract_players_from_espn_html soup_rows html) \<and>
      str_lower (str_strip (name p)) = str_lower (str_strip (name q))"
    then have "dedup_key p = dedup_key q" by (simp add: dedup_key_def)
    moreover have "inj_on dedup_key (set (extract_players_from_espn_html soup_rows html))"
      using d by (simp add: distinct_map)
    ultimately show "p = q" using a by (auto dest: inj_onD)
  }
  {
    fix q
    assume "q \<in> set (extract_players_from_espn_html soup_rows html)"
    then show "\<exists>pre post. candidates soup_rows html = pre @ q # post \<and>
        (\<forall>r \<in> set pre. dedup_key r \<noteq> dedup_key q)"
      unfolding extract_players_from_espn_html_def by (rule dedup_loop_first)
  }
  {
    fix q
    assume "q \<in> set (candidates soup_rows html)" "dedup_key q \<noteq> ''''"
    then show "dedup_key q \<in> dedup_key ` set (extract_players_from_espn_html soup_rows html)"
      unfolding extract_players_from_espn_html_def by (intro dedup_loop_complete) simp_all
  }
qed

theorem listing_dedup_witness:
  "candidates (\<lambda>h. [])
     (quoted ''name'' @ '':'' @ quoted ''virat kohli'' @ '','' @ quoted ''name'' @ '': '' @
      quoted ''Virat Kohli'' @ '','' @ quoted ''name'' @ '':'' @ quoted ''MS Dhoni'') =
     [\<lparr>name = ''MS Dhoni'', ipl_team = ''''\<rparr>, \<lparr>name = ''Virat Kohli'', ipl_team = ''''\<rparr>,
      \<lparr>name = ''virat kohli'', ipl_team = ''''\<rparr>] \<and>
   extract_players_from_espn_html (\<lambda>h. [])
     (quoted ''name'' @ '':'' @ quoted ''virat kohli'' @ '','' @ quoted ''name'' @ '': '' @
      quoted ''Virat Kohli'' @ '','' @ quoted ''name'' @ '':'' @ quoted ''MS Dhoni'') =
     [\<lparr>name = ''MS Dhoni'', ipl_team = ''''\<rparr>, \<lparr>name = ''Virat Kohli'', ipl_team = ''''\<rparr>] \<and>
   distinct (map dedup_key (extract_players_from_espn_html (\<lambda>h. [])
     (quoted ''name'' @ '':'' @ quoted ''virat kohli'' @ '','' @ quoted ''name'' @ '': '' @
      quoted ''Virat Kohli'' @ '','' @ quoted ''name'' @ '':'' @ quoted ''MS Dhoni'')))"
proof -
  let ?html = "quoted ''name'' @ '':'' @ quoted ''virat kohli'' @ '','' @ quoted ''name'' @ '': '' @
      quoted ''Virat Kohli'' @ '','' @ quoted ''name'' @ '':'' @ quoted ''MS Dhoni''"
  have c: "candidates (\<lambda>h. []) ?html =
     [\<lparr>name = ''MS Dhoni'', ipl_team = ''''\<rparr>, \<lparr>name = ''Virat Kohli'', ipl_team = ''''\<rparr>,
      \<lparr>name = ''virat kohli'', ipl_team = ''''\<rparr>]"
    by (simp add: listing_eval text_eval)
  have e: "extract_players_from_espn_html (\<lambda>h. []) ?html =
     [\<lparr>name = ''MS Dhoni'', ipl_team = ''''\<rparr>, \<lparr>name = ''Virat Kohli'', ipl_team = ''''\<rparr>]"
    unfolding extract_players_from_espn_html_def c
    by (simp add: dedup_loop.simps dedup_key_def str_strip_def text_eval)
  have d: "distinct (map dedup_key (extract_players_from_espn_html (\<lambda>h. []) ?html))"
    using listing_dedup[of "\<lambda>h. []" ?html] by (rule conjunct1)
  show ?thesis by (intro conjI c e d)
qed

text \<open>
  The claim as stated speaks of first-seen entries and first-seen order of the page. On the
  script path the matches pass through a set and \<open>sorted\<close>: of two spellings of a name
  the one that sorts first survives, here the second one seen, and the result is in sorted
  order, here the reverse of the order on the page.
\<close>

theorem listing_dedup_counterexample:
  "findall_names (quoted ''name'' @ '':'' @ quoted ''virat kohli'' @ '','' @ quoted ''name'' @ '':'' @
      quoted ''Virat Kohli'') = [''virat kohli'', ''Virat Kohli''] \<and>
   extract_players_from_espn_html (\<lambda>h. [])
     (quoted ''name'' @ '':'' @ quoted ''virat kohli'' @ '','' @ quoted ''name'' @ '':'' @
      quoted ''Virat Kohli'') = [\<lparr>name = ''Virat Kohli'', ipl_team = ''''\<rparr>] \<and>
   findall_names (quoted ''name'' @ '':'' @ quoted ''Zed Young'' @ '','' @ quoted ''name'' @ '':'' @
      quoted ''Abe Xavier'') = [''Zed Young'', ''Abe Xavier''] \<and>
   extract_players_from_espn_html (\<lambda>h. [])
     (quoted ''name'' @ '':'' @ quoted ''Zed Young'' @ '','' @ quoted ''name'' @ '':'' @
      quoted ''Abe Xavier'') =
     [\<lparr>name = ''Abe Xavier'', ipl_team = ''''\<rparr>, \<lparr>name = ''Zed Young'', ipl_team = ''''\<rparr>]"
  by (simp add: listing_eval text_eval dedup_loop.simps)

text \<open>
  Claim C10. Every entry that \<open>extract_players_from_espn_html\<close> returns has the empty
  string as its \<open>ipl_team\<close>: both paths build their entries with an empty team, and the team
  fragments found by the team pattern are not used.
\<close>

theorem listing_team_empty:
  "\<forall>p \<in> set (extract_players_from_espn_html soup_rows html). ipl_team p = ''''"
  using extract_subset[of soup_rows html] candidates_team[of _ soup_rows html] by blast

theorem listing_team_empty_witness:
  "findall_teams (quoted ''name'' @ '':'' @ quoted ''Virat Kohli'' @ '','' @ quoted ''team'' @ '':'' @
      quoted ''RCB'') = [''RCB''] \<and>
   extract_players_from_espn_html (\<lambda>h. [])
     (quoted ''name'' @ '':'' @ quoted ''Virat Kohli'' @ '','' @ quoted ''team'' @ '':'' @
      quoted ''RCB'') = [\<lparr>name = ''Virat Kohli'', ipl_team = ''''\<rparr>] \<and>
   list_all (\<lambda>p. ipl_team p = '''')
     (extract_players_from_espn_html (\<lambda>h. [])
       (quoted ''name'' @ '':'' @ quoted ''Virat Kohli'' @ '','' @ quoted ''team'' @ '':'' @
        quoted ''RCB''))"
proof -
  let ?html = "quoted ''name'' @ '':'' @ quoted ''Virat Kohli'' @ '','' @ quoted ''team'' @ '':'' @
      quoted ''RCB''"
  have t: "findall_teams ?html = [''RCB'']" by (simp add: listing_eval text_eval)
  have e: "extract_players_from_espn_html (\<lambda>h. []) ?html = [\<lparr>name = ''Virat Kohli'', ipl_team = ''''\<rparr>]"
    by (simp add: listing_eval text_eval dedup_loop.simps)
  have a: "list_all (\<lambda>p. ipl_team p = '''') (extract_players_from_espn_html (\<lambda>h. []) ?html)"
    using listing_team_empty[of "\<lambda>h. []" ?html] by (simp only: list_all_iff)
  show ?thesis by (intro conjI t e a)
qed

section \<open>Tolerance of the statistics table scan\<close>

lemma scan_rows_total: "headers \<noteq> [] \<Longrightarrow> \<exists>res. scan_rows headers rows out = Inr res"
proof (induction rows arbitrary: out)
  case Nil
  show ?case by simp
next
  case (Cons r rows)
  show ?case
  proof (cases "length (tds r) \<noteq> length headers")
    case True
    then show ?thesis using Cons.IH[OF Cons.prems, of out] by simp
  next
    case False
    with Cons.prems obtain fmt cells where c: "tds r = fmt # cells" by (cases "tds r") auto
    show ?thesis
    proof (cases "fmt = [] \<or> str_lower fmt \<in> {''span'', ''overall''}")
      case True
      then show ?thesis using False c Cons.IH[OF Cons.prems, of out] by simp
    next
      case nk: False
      then show ?thesis
        using False c Cons.IH[OF Cons.prems, of "dict_set out fmt (row_dict headers (tds r))"]
        by simp
    qed
  qed
qed

lemma scan_rows_skip:
  "\<not> usable headers r \<Longrightarrow> headers \<noteq> [] \<Longrightarrow>
   scan_rows headers (r # rows) out = scan_rows headers rows out"
  by (cases "tds r") (auto simp: usable_def)

lemma scan_rows_skip_mid:
  "\<not> usable headers r \<Longrightarrow> headers \<noteq> [] \<Longrightarrow>
   scan_rows headers (rs1 @ r # rs2) out = scan_rows headers (rs1 @ rs2) out"
proof (induction rs1 arbitrary: out)
  case Nil
  then show ?case using scan_rows_skip[of headers r rs2 out] by simp
next
  case (Cons a rs1)
  note ih = Cons.IH[OF Cons.prems]
  show ?case
  proof (cases "length (tds a) \<noteq> length headers")
    case True
    then show ?thesis using ih[of out] by simp
  next
    case False
    with Cons.prems obtain fmt cells where c: "tds a = fmt # cells" by (cases "tds a") auto
    show ?thesis
    proof (cases "fmt = [] \<or> str_lower fmt \<in> {''span'', ''overall''}")
      case True
      then show ?thesis using False c ih[of out] by simp
    next
      case nk: False
      then show ?thesis
        using False c ih[of "dict_set out fmt (row_dict headers (tds a))"] by simp
    qed
  qed
qed

lemma scan_rows_none_usable:
  "headers \<noteq> [] \<Longrightarrow> \<forall>r \<in> set rows. \<not> usable headers r \<Longrightarrow> scan_rows headers rows out = Inr out"
proof (induction rows)
  case Nil
  show ?case by simp
next
  case (Cons r rows)
  then have "scan_rows headers (r # rows) out = scan_rows headers rows out"
    by (intro scan_rows_skip) simp_all
  then show ?case using Cons by simp
qed

lemma scan_tables_total: "\<exists>res. scan_tables tables = Inr res"
proof (induction tables)
  case Nil
  show ?case by simp
next
  case (Cons rows tables)
  show ?case
  proof (cases "length rows < 2")
    case True
    then show ?thesis using Cons by simp
  next
    case False
    then obtain r0 data where rd: "rows = r0 # data" by (cases rows) auto
    show ?thesis
    proof (cases "''Mat'' \<in> set (ths r0)")
      case False
      then show ?thesis using Cons rd \<open>\<not> length rows < 2\<close> by simp
    next
      case True
      then have "ths r0 \<noteq> []" by auto
      then obtain res where res: "scan_rows (ths r0) data [] = Inr res"
        using scan_rows_total by blast
      show ?thesis
      proof (cases "res = []")
        case True
        then show ?thesis using Cons rd res \<open>\<not> length rows < 2\<close> \<open>''Mat'' \<in> set (ths r0)\<close>
          by (simp add: Let_def)
      next
        case False
        then show ?thesis using rd res \<open>\<not> length rows < 2\<close> \<open>''Mat'' \<in> set (ths r0)\<close>
          by (simp add: Let_def)
      qed
    qed
  qed
qed

lemma scan_tables_none_qualifies:
  "\<forall>rows \<in> set tables. \<not> qualifies rows \<Longrightarrow> scan_tables tables = Inr []"
proof (induction tables)
  case Nil
  show ?case by simp
next
  case (Cons rows tables)
  then have ih: "scan_tables tables = Inr []" and nq: "\<not> qualifies rows" by simp_all
  show ?case
  proof (cases "length rows < 2")
    case True
    then show ?thesis using ih by simp
  next
    case False
    then obtain r0 data where rd: "rows = r0 # data" and dn: "data \<noteq> []"
      by (cases rows) auto
    show ?thesis
    proof (cases "''Mat'' \<in> set (ths r0)")
      case False
      then show ?thesis using ih rd \<open>\<not> length rows < 2\<close> by simp
    next
      case True
      then have hn: "ths r0 \<noteq> []" by auto
      from nq rd dn True have "\<forall>r \<in> set data. \<not> usable (ths r0) r"
        by (simp add: qualifies_def list_ex_iff)
      then have "scan_rows (ths r0) data [] = Inr []" using hn by (intro scan_rows_none_usable)
      then show ?thesis using ih rd True \<open>\<not> length rows < 2\<close> by (simp add: Let_def)
    qed
  qed
qed

lemma scan_tables_skip1: "\<not> qualifies rows \<Longrightarrow> scan_tables (rows # tables) = scan_tables tables"
proof (cases "length rows < 2")
  case True
  then show ?thesis by simp
next
  case False
  assume nq: "\<not> qualifies rows"
  from False obtain r0 data where rd: "rows = r0 # data" and dn: "data \<noteq> []"
    by (cases rows) auto
  show ?thesis
  proof (cases "''Mat'' \<in> set (ths r0)")
    case False
    then show ?thesis using rd \<open>\<not> length rows < 2\<close> by simp
  next
    case True
    then have hn: "ths r0 \<noteq> []" by auto
    from nq rd dn True have "\<forall>r \<in> set data. \<not> usable (ths r0) r"
      by (simp add: qualifies_def list_ex_iff)
    then have "scan_rows (ths r0) data [] = Inr []" using hn by (intro scan_rows_none_usable)
    then show ?thesis using rd True \<open>\<not> length rows < 2\<close> by (simp add: Let_def)
  qed
qed

lemma scan_tables_skip:
  "\<forall>rows \<in> set pre. \<not> qualifies rows \<Longrightarrow> scan_tables (pre @ rest) = scan_tables rest"
  by (induction pre) (simp_all add: scan_tables_skip1 del: scan_tables.simps)

lemma dict_set_order:
  "map fst (dict_set d k v) = (if k \<in> set (map fst d) then map fst d else map fst d @ [k])"
  by (induction d) force+

lemma dict_set_keys: "fst ` set (dict_set d k v) = insert k (fst ` set d)"
proof -
  have "set (map fst (dict_set d k v)) = insert k (set (map fst d))"
    by (simp only: dict_set_order) auto
  then show ?thesis by simp
qed

lemma scan_rows_keys:
  "headers \<noteq> [] \<Longrightarrow> scan_rows headers rows out = Inr res \<Longrightarrow>
   fst ` set res = fst ` set out \<union> {fmt. \<exists>r \<in> set rows. usable headers r \<and> hd (tds r) = fmt}"
proof (induction rows arbitrary: out)
  case Nil
  then show ?case by auto
next
  case (Cons r rows)
  show ?case
  proof (cases "usable headers r")
    case False
    then have "scan_rows headers (r # rows) out = scan_rows headers rows out"
      using Cons.prems(1) by (intro scan_rows_skip)
    with Cons.prems(2) have "scan_rows headers rows out = Inr res" by simp
    then have "fst ` set res =
        fst ` set out \<union> {fmt. \<exists>r \<in> set rows. usable headers r \<and> hd (tds r) = fmt}"
      using Cons.prems(1) by (intro Cons.IH)
    then show ?thesis using False by auto
  next
    case True
    then obtain fmt cells where c: "tds r = fmt # cells" and l: "length (tds r) = length headers"
      and f: "fmt \<noteq> []" "str_lower fmt \<noteq> ''span''" "str_lower fmt \<noteq> ''overall''"
      by (cases "tds r") (auto simp: usable_def)
    let ?out = "dict_set out fmt (row_dict headers (tds r))"
    have "scan_rows headers (r # rows) out = scan_rows headers rows ?out"
      using c l f by simp
    with Cons.prems(2) have "scan_rows headers rows ?out = Inr res" by simp
    then have "fst ` set res =
        fst ` set ?out \<union> {fmt. \<exists>r \<in> set rows. usable headers r \<and> hd (tds r) = fmt}"
      using Cons.prems(1) by (intro Cons.IH)
    then show ?thesis using True c by (auto simp: dict_set_keys)
  qed
qed

lemma scan_tables_first:
  assumes q: "qualifies (r0 # data)"
  shows "\<exists>res. scan_tables ((r0 # data) # tables) = Inr res \<and>
     fst ` set res = {fmt. \<exists>r \<in> set data. usable (ths r0) r \<and> hd (tds r) = fmt}"
proof -
  from q have dn: "data \<noteq> []" and mat: "''Mat'' \<in> set (ths r0)"
    and ex: "\<exists>r \<in> set data. usable (ths r0) r"
    by (simp_all add: qualifies_def list_ex_iff)
  from mat have hn: "ths r0 \<noteq> []" by auto
  obtain res where res: "scan_rows (ths r0) data [] = Inr res"
    using scan_rows_total[OF hn] by blast
  have keys: "fst ` set res = {fmt. \<exists>r \<in> set data. usable (ths r0) r \<and> hd (tds r) = fmt}"
    using scan_rows_keys[OF hn res] by simp
  from ex obtain r where "r \<in> set data" "usable (ths r0) r" by blast
  then have "hd (tds r) \<in> fst ` set res" unfolding keys by blast
  then have "res \<noteq> []" by auto
  moreover have "\<not> length (r0 # data) < 2" using dn by (cases data) simp_all
  ultimately have "scan_tables ((r0 # data) # tables) = Inr res"
    using mat res by (simp add: Let_def)
  with keys show ?thesis by blast
qed

text \<open>
  Claim C9. For every parse of the page the extractor returns a mapping and raises nothing.
  Under headers that contain \<open>Mat\<close>, a data row whose number of cells differs from the number
  of headers is skipped: the scan gives the same result as without that row; the same holds
  for a row whose first cell is empty or is \<open>span\<close> or \<open>overall\<close> in any letter case. When no
  table qualifies (at least two rows, a \<open>Mat\<close> header and a usable data row), the result is
  the empty mapping. Otherwise the result comes from the first table that qualifies, and
  its keys are the first cells of the usable rows of that table.
\<close>

theorem statsguru_tolerant:
  "(\<exists>res. fetch_espn_statsguru_summary tables = Inr res) \<and>
   (''Mat'' \<in> set headers \<and> length (tds r) \<noteq> length headers \<longrightarrow>
      scan_rows headers (rs1 @ r # rs2) out = scan_rows headers (rs1 @ rs2) out) \<and>
   (''Mat'' \<in> set headers \<and> tds r = fmt # cells \<and>
    (fmt = '''' \<or> str_lower fmt = ''span'' \<or> str_lower fmt = ''overall'') \<longrightarrow>
      scan_rows headers (rs1 @ r # rs2) out = scan_rows headers (rs1 @ rs2) out) \<and>
   ((\<forall>rows \<in> set tables. \<not> qualifies rows) \<longrightarrow> fetch_espn_statsguru_summary tables = Inr []) \<and>
   ((\<forall>rows \<in> set pre. \<not> qualifies rows) \<and> qualifies (r0 # data) \<longrightarrow>
      (\<exists>res. fetch_espn_statsguru_summary (pre @ (r0 # data) # post) = Inr res \<and>
         fst ` set res = {fmt. \<exists>r \<in> set data. usable (ths r0) r \<and> hd (tds r) = fmt}))"
proof (intro conjI impI)
  show "\<exists>res. fetch_espn_statsguru_summary tables = Inr res"
    unfolding fetch_espn_statsguru_summary_def by (rule scan_tables_total)
next
  assume a: "''Mat'' \<in> set headers \<and> length (tds r) \<noteq> length headers"
  then have "headers \<noteq> []" by auto
  moreover from a have "\<not> usable headers r" by (simp add: usable_def)
  ultimately show "scan_rows headers (rs1 @ r # rs2) out = scan_rows headers (rs1 @ rs2) out"
    by (intro scan_rows_skip_mid)
next
  assume a: "''Mat'' \<in> set headers \<and> tds r = fmt # cells \<and>
    (fmt = '''' \<or> str_lower fmt = ''span'' \<or> str_lower fmt = ''overall'')"
  then have "headers \<noteq> []" by auto
  moreover from a have "\<not> usable headers r" by (auto simp: usable_def)
  ultimately show "scan_rows headers (rs1 @ r # rs2) out = scan_rows headers (rs1 @ rs2) out"
    by (intro scan_rows_skip_mid)
next
  assume "\<forall>rows \<in> set tables. \<not> qualifies rows"
  then show "fetch_espn_statsguru_summary tables = Inr []"
    unfolding fetch_espn_statsguru_summary_def using scan_tables_skip[of tables "[]"] by simp
next
  assume a: "(\<forall>rows \<in> set pre. \<not> qualifies rows) \<and> qualifies (r0 # data)"
  then have "scan_tables (pre @ (r0 # data) # post) = scan_tables ((r0 # data) # post)"
    by (intro scan_tables_skip) simp
  moreover from a have "\<exists>res. scan_tables ((r0 # data) # post) = Inr res \<and>
     fst ` set res = {fmt. \<exists>r \<in> set data. usable (ths r0) r \<and> hd (tds r) = fmt}"
    by (intro scan_tables_first) simp
  ultimately show "\<exists>res. fetch_espn_statsguru_summary (pre @ (r0 # data) # post) = Inr res \<and>
         fst ` set res = {fmt. \<exists>r \<in> set data. usable (ths r0) r \<and> hd (tds r) = fmt}"
    unfolding fetch_espn_statsguru_summary_def by simp
qed

theorem statsguru_tolerant_witness:
  "fetch_espn_statsguru_summary
     [[\<lparr>ths = [''x''], tds = []\<rparr>],
      [\<lparr>ths = ['''', ''Mat'', ''Runs''], tds = []\<rparr>,
       \<lparr>ths = [], tds = [''T20Is'', ''10'', ''200'']\<rparr>,
       \<lparr>ths = [], tds = [''ODIs'', ''10'']\<rparr>,
       \<lparr>ths = [], tds = [''Overall'', ''10'', ''200'']\<rparr>,
       \<lparr>ths = [], tds = [''ODIs'', ''7'', ''90'']\<rparr>]] =
     Inr [(''T20Is'', [(''Mat'', ''10''), (''Runs'', ''200'')]),
          (''ODIs'', [(''Mat'', ''7''), (''Runs'', ''90'')])] \<and>
   length (tds \<lparr>ths = [], tds = [''ODIs'', ''10'']\<rparr>) \<noteq> length ['''', ''Mat'', ''Runs''] \<and>
   scan_rows ['''', ''Mat'', ''Runs'']
     ([\<lparr>ths = [], tds = [''T20Is'', ''10'', ''200'']\<rparr>] @ \<lparr>ths = [], tds = [''ODIs'', ''10'']\<rparr> # []) [] =
     scan_rows ['''', ''Mat'', ''Runs''] ([\<lparr>ths = [], tds = [''T20Is'', ''10'', ''200'']\<rparr>] @ []) [] \<and>
   scan_rows ['''', ''Mat'', ''Runs'']
     ([] @ \<lparr>ths = [], tds = [''Overall'', ''10'', ''200'']\<rparr> # []) [] =
     scan_rows ['''', ''Mat'', ''Runs''] ([] @ []) [] \<and>
   list_all (\<lambda>rows. \<not> qualifies rows)
     [[\<lparr>ths = [''Mat''], tds = []\<rparr>, \<lparr>ths = [], tds = [''Span'']\<rparr>], [\<lparr>ths = [''Mat''], tds = []\<rparr>]] \<and>
   fetch_espn_statsguru_summary
     [[\<lparr>ths = [''Mat''], tds = []\<rparr>, \<lparr>ths = [], tds = [''Span'']\<rparr>], [\<lparr>ths = [''Mat''], tds = []\<rparr>]] =
     Inr []"
proof -
  let ?H = "['''', ''Mat'', ''Runs'']"
  let ?r1 = "\<lparr>ths = [], tds = [''T20Is'', ''10'', ''200'']\<rparr>"
  let ?bad = "\<lparr>ths = [], tds = [''ODIs'', ''10'']\<rparr>"
  let ?agg = "\<lparr>ths = [], tds = [''Overall'', ''10'', ''200'']\<rparr>"
  let ?none = "[[\<lparr>ths = [''Mat''], tds = []\<rparr>, \<lparr>ths = [], tds = [''Span'']\<rparr>], [\<lparr>ths = [''Mat''], tds = []\<rparr>]]"
  have c0: "fetch_espn_statsguru_summary
     [[\<lparr>ths = [''x''], tds = []\<rparr>],
      [\<lparr>ths = ?H, tds = []\<rparr>, ?r1, ?bad, ?agg, \<lparr>ths = [], tds = [''ODIs'', ''7'', ''90'']\<rparr>]] =
     Inr [(''T20Is'', [(''Mat'', ''10''), (''Runs'', ''200'')]),
          (''ODIs'', [(''Mat'', ''7''), (''Runs'', ''90'')])]"
    by (simp add: fetch_espn_statsguru_summary_def row_dict_def upt_rec text_eval)
  have h1: "length (tds ?bad) \<noteq> length ?H" by simp
  have h1': "''Mat'' \<in> set ?H \<and> length (tds ?bad) \<noteq> length ?H" by simp
  have c1: "scan_rows ?H ([?r1] @ ?bad # []) [] = scan_rows ?H ([?r1] @ []) []"
    by (rule statsguru_tolerant[of "[]" ?H ?bad "[?r1]" "[]" "[]" "[]" "[]" "[]" ?bad "[]" "[]",
          THEN conjunct2, THEN conjunct1, THEN mp, OF h1'])
  have h2: "''Mat'' \<in> set ?H \<and> tds ?agg = ''Overall'' # [''10'', ''200''] \<and>
      (''Overall'' = '''' \<or> str_lower ''Overall'' = ''span'' \<or> str_lower ''Overall'' = ''overall'')"
    by (simp add: text_eval)
  have c2: "scan_rows ?H ([] @ ?agg # []) [] = scan_rows ?H ([] @ []) []"
    by (rule statsguru_tolerant[of "[]" ?H ?agg "[]" "[]" "[]" "''Overall''" "[''10'', ''200'']" "[]"
          ?bad "[]" "[]", THEN conjunct2, THEN conjunct2, THEN conjunct1, THEN mp, OF h2])
  have h3: "list_all (\<lambda>rows. \<not> qualifies rows) ?none"
    by (simp add: qualifies_def usable_def text_eval)
  have c3: "fetch_espn_statsguru_summary ?none = Inr []"
    by (rule statsguru_tolerant[of ?none "[]" ?bad "[]" "[]" "[]" "[]" "[]" "[]" ?bad "[]" "[]",
          THEN conjunct2, THEN conjunct2, THEN conjunct2, THEN conjunct1, THEN mp,
          OF h3[unfolded list_all_iff]])
  show ?thesis by (intro conjI c0 h1 c1 c2 h3 c3)
qed

end
